theory Spec2Isabelle
  imports Main
begin

section \<open>JSON values and the platform's JSON text\<close>

text \<open>
  The transport in \<^verbatim>\<open>ipcTransport.ts\<close> hands every payload to \<^verbatim>\<open>JSON.stringify\<close> and reads
  every inbound payload with \<^verbatim>\<open>JSON.parse(buffer.toString())\<close>. Both are functions of the
  JavaScript platform, not of the repository, so they are modelled here once, as executable
  functions on the following value type.

  \<^item> Numbers are the integers (\<open>pid\<close>, \<open>v\<close>, close codes, activity types and timestamps are
    integers); binary64 fractions are outside the model, and \<open>JSON_parse\<close> below does not
    accept a number literal with a fraction or an exponent.
  \<^item> A string is the list of the bytes of its UTF-8 encoding, which is what
    \<^verbatim>\<open>Buffer.from(text)\<close> puts on the wire.
  \<^item> An object is the list of its properties in property order.
  \<^item> \<^verbatim>\<open>undefined\<close> is \<open>None\<close> of \<open>json option\<close>.
\<close>

datatype json =
    JNull
  | JBool bool
  | JNum int
  | JStr string
  | JArr "json list"
  | JObj "(string \<times> json) list"

text \<open>JavaScript truthiness, as tested by \<^verbatim>\<open>payload ? ... : ...\<close> and \<^verbatim>\<open>if (activity.state)\<close>.\<close>

fun truthy :: "json \<Rightarrow> bool" where
  "truthy JNull = False"
| "truthy (JBool b) = b"
| "truthy (JNum n) = (n \<noteq> 0)"
| "truthy (JStr s) = (s \<noteq> [])"
| "truthy (JArr vs) = True"
| "truthy (JObj ms) = True"

text \<open>Property access \<^verbatim>\<open>value.key\<close> for the keys the code reads (\<open>cmd\<close>, \<open>evt\<close>, \<open>data\<close>):
  the property of an object, \<^verbatim>\<open>undefined\<close> on a missing key and on a primitive or an array.
  Reading a property of \<^verbatim>\<open>null\<close> or \<^verbatim>\<open>undefined\<close> raises; the caller below tests for that.\<close>

fun property :: "json \<Rightarrow> string \<Rightarrow> json option" where
  "property (JObj ms) k = map_of ms k"
| "property _ k = None"

text \<open>An object of the platform has one value per key.\<close>

fun wf_json :: "json \<Rightarrow> bool" where
  "wf_json (JArr vs) = list_all wf_json vs"
| "wf_json (JObj ms) = (distinct (map fst ms) \<and> list_all (\<lambda>(k, v). wf_json v) ms)"
| "wf_json _ = True"

subsection \<open>\<^verbatim>\<open>JSON.stringify\<close>\<close>

definition is_digit :: "char \<Rightarrow> bool" where
  "is_digit c = (48 \<le> (of_char c :: nat) \<and> (of_char c :: nat) \<le> 57)"

definition digit_val :: "char \<Rightarrow> nat" where
  "digit_val c = of_char c - 48"

definition digit_char :: "nat \<Rightarrow> char" where
  "digit_char d = char_of (48 + d)"

function show_nat :: "nat \<Rightarrow> string" where
  "show_nat n = (if n < 10 then [digit_char n] else show_nat (n div 10) @ [digit_char (n mod 10)])"
  by pat_completeness auto
termination
  by (relation "measure id") auto

declare show_nat.simps [simp del]

definition show_int :: "int \<Rightarrow> string" where
  "show_int i = (if i < 0 then CHR ''-'' # show_nat (nat (- i)) else show_nat (nat i))"

fun commas :: "string list \<Rightarrow> string" where
  "commas [] = []"
| "commas [x] = x"
| "commas (x # y # ys) = x @ CHR '','' # commas (y # ys)"

definition hex_digit :: "nat \<Rightarrow> char" where
  "hex_digit d = (if d < 10 then char_of (48 + d) else char_of (87 + d))"

text \<open>The quotation mark is \<open>CHR 0x22\<close> and the backslash \<open>CHR 0x5C\<close>. A control character gets
  its short escape or \<^verbatim>\<open>\u00xx\<close>; every other byte, also the bytes of a multi-byte
  character, is copied.\<close>

definition escape_char :: "char \<Rightarrow> string" where
  "escape_char c =
    (if c = CHR 0x22 then [CHR 0x5C, CHR 0x22]
     else if c = CHR 0x5C then [CHR 0x5C, CHR 0x5C]
     else if c = CHR 0x08 then [CHR 0x5C, CHR ''b'']
     else if c = CHR 0x0C then [CHR 0x5C, CHR ''f'']
     else if c = CHR 0x0A then [CHR 0x5C, CHR ''n'']
     else if c = CHR 0x0D then [CHR 0x5C, CHR ''r'']
     else if c = CHR 0x09 then [CHR 0x5C, CHR ''t'']
     else if (of_char c :: nat) < 32 then
       [CHR 0x5C, CHR ''u'', CHR ''0'', CHR ''0'',
        hex_digit (of_char c div 16), hex_digit (of_char c mod 16)]
     else [c])"

definition quote :: "string \<Rightarrow> string" where
  "quote s = CHR 0x22 # concat (map escape_char s) @ [CHR 0x22]"

text \<open>The compact text \<^verbatim>\<open>JSON.stringify(value)\<close> returns: no white space, properties in
  property order.\<close>

fun JSON_stringify :: "json \<Rightarrow> string" where
  "JSON_stringify JNull = ''null''"
| "JSON_stringify (JBool b) = (if b then ''true'' else ''false'')"
| "JSON_stringify (JNum n) = show_int n"
| "JSON_stringify (JStr s) = quote s"
| "JSON_stringify (JArr vs) = CHR ''['' # commas (map JSON_stringify vs) @ '']''"
| "JSON_stringify (JObj ms) =
     CHR ''{'' # commas (map (\<lambda>(k, v). quote k @ CHR '':'' # JSON_stringify v) ms) @ ''}''"

definition member_text :: "string \<times> json \<Rightarrow> string" where
  "member_text kv = quote (fst kv) @ CHR '':'' # JSON_stringify (snd kv)"

subsection \<open>\<^verbatim>\<open>JSON.parse\<close>\<close>

text \<open>
  A recursive-descent reader of the JSON grammar on bytes: white space between tokens, the
  three literals, integers without a leading zero, strings with all escapes of the grammar
  (a \<^verbatim>\<open>\uXXXX\<close> escape yields the UTF-8 bytes of its character, a surrogate pair yields one
  character, a lone surrogate the replacement character), arrays and objects without a
  trailing comma. \<open>None\<close> is the \<^verbatim>\<open>SyntaxError\<close> that \<^verbatim>\<open>JSON.parse\<close> raises.

  \<^verbatim>\<open>Buffer.toString()\<close> never fails: it replaces an ill-formed UTF-8 sequence by U+FFFD before
  the text is parsed. Such a sequence consists of bytes from \<open>0x80\<close> on, which the grammar
  admits inside a string literal only, and so does the replacement: whether a text parses is
  the same with and without it, and the reader below works on the bytes as they arrived.
\<close>

definition is_ws :: "char \<Rightarrow> bool" where
  "is_ws c = (c = CHR 0x20 \<or> c = CHR 0x09 \<or> c = CHR 0x0A \<or> c = CHR 0x0D)"

fun skip_ws :: "string \<Rightarrow> string" where
  "skip_ws [] = []"
| "skip_ws (c # cs) = (if is_ws c then skip_ws cs else c # cs)"

definition hex_val :: "char \<Rightarrow> nat option" where
  "hex_val c =
    (let n = (of_char c :: nat) in
     if 48 \<le> n \<and> n \<le> 57 then Some (n - 48)
     else if 97 \<le> n \<and> n \<le> 102 then Some (n - 87)
     else if 65 \<le> n \<and> n \<le> 70 then Some (n - 55)
     else None)"

fun hex4 :: "string \<Rightarrow> nat option" where
  "hex4 [a, b, c, d] =
    (case (hex_val a, hex_val b, hex_val c, hex_val d) of
       (Some x, Some y, Some z, Some w) \<Rightarrow> Some (((x * 16 + y) * 16 + z) * 16 + w)
     | _ \<Rightarrow> None)"
| "hex4 _ = None"

definition utf8_encode :: "nat \<Rightarrow> string" where
  "utf8_encode cp =
    (if cp < 0x80 then [char_of cp]
     else if cp < 0x800 then [char_of (0xC0 + cp div 0x40), char_of (0x80 + cp mod 0x40)]
     else if cp < 0x10000 then
       [char_of (0xE0 + cp div 0x1000), char_of (0x80 + cp div 0x40 mod 0x40),
        char_of (0x80 + cp mod 0x40)]
     else
       [char_of (0xF0 + cp div 0x40000), char_of (0x80 + cp div 0x1000 mod 0x40),
        char_of (0x80 + cp div 0x40 mod 0x40), char_of (0x80 + cp mod 0x40)])"

definition simple_escape :: "char \<Rightarrow> char option" where
  "simple_escape e =
    (if e = CHR 0x22 then Some (CHR 0x22)
     else if e = CHR 0x5C then Some (CHR 0x5C)
     else if e = CHR ''/'' then Some (CHR ''/'')
     else if e = CHR ''b'' then Some (CHR 0x08)
     else if e = CHR ''f'' then Some (CHR 0x0C)
     else if e = CHR ''n'' then Some (CHR 0x0A)
     else if e = CHR ''r'' then Some (CHR 0x0D)
     else if e = CHR ''t'' then Some (CHR 0x09)
     else None)"

definition low_surrogate :: "string \<Rightarrow> nat option" where
  "low_surrogate cs =
    (case cs of
       b # u # r \<Rightarrow>
         if b = CHR 0x5C \<and> u = CHR ''u'' then
           (case hex4 (take 4 r) of
              Some lo \<Rightarrow> if 0xDC00 \<le> lo \<and> lo < 0xE000 then Some lo else None
            | None \<Rightarrow> None)
         else None
     | _ \<Rightarrow> None)"

definition prepend :: "string \<Rightarrow> (string \<times> string) option \<Rightarrow> (string \<times> string) option" where
  "prepend bs res = (case res of None \<Rightarrow> None | Some (s, r) \<Rightarrow> Some (bs @ s, r))"

text \<open>The body of a string literal, after its opening quotation mark: the string and the
  text that follows the closing quotation mark.\<close>

fun parse_string_body :: "string \<Rightarrow> (string \<times> string) option" where
  "parse_string_body [] = None"
| "parse_string_body (c # cs) =
    (if c = CHR 0x22 then Some ([], cs)
     else if c = CHR 0x5C then
       (case cs of
          [] \<Rightarrow> None
        | e # r \<Rightarrow>
            if e = CHR ''u'' then
              (case hex4 (take 4 r) of
                 None \<Rightarrow> None
               | Some hi \<Rightarrow>
                   if 0xD800 \<le> hi \<and> hi < 0xDC00 then
                     (case low_surrogate (drop 4 r) of
                        Some lo \<Rightarrow>
                          prepend (utf8_encode (0x10000 + (hi - 0xD800) * 0x400 + (lo - 0xDC00)))
                            (parse_string_body (drop 10 r))
                      | None \<Rightarrow> prepend (utf8_encode 0xFFFD) (parse_string_body (drop 4 r)))
                   else if 0xDC00 \<le> hi \<and> hi < 0xE000 then
                     prepend (utf8_encode 0xFFFD) (parse_string_body (drop 4 r))
                   else prepend (utf8_encode hi) (parse_string_body (drop 4 r)))
            else
              (case simple_escape e of
                 None \<Rightarrow> None
               | Some ch \<Rightarrow> prepend [ch] (parse_string_body r)))
     else if (of_char c :: nat) < 32 then None
     else prepend [c] (parse_string_body cs))"

fun parse_digits :: "nat \<Rightarrow> string \<Rightarrow> nat \<times> string" where
  "parse_digits acc [] = (acc, [])"
| "parse_digits acc (c # cs) =
    (if is_digit c then parse_digits (acc * 10 + digit_val c) cs else (acc, c # cs))"

text \<open>Where the integer part of a number ends. A fraction or an exponent follows in the
  grammar; the model has no value for such a number.\<close>

definition number_end :: "string \<Rightarrow> bool" where
  "number_end r =
    (case r of [] \<Rightarrow> True | c # _ \<Rightarrow> c \<noteq> CHR ''.'' \<and> c \<noteq> CHR ''e'' \<and> c \<noteq> CHR ''E'')"

definition parse_nat :: "string \<Rightarrow> (nat \<times> string) option" where
  "parse_nat cs =
    (case cs of
       [] \<Rightarrow> None
     | c # r \<Rightarrow>
         if c = CHR ''0'' then (if number_end r then Some (0, r) else None)
         else if is_digit c then
           (case parse_digits (digit_val c) r of
              (n, r') \<Rightarrow> if number_end r' then Some (n, r') else None)
         else None)"

definition parse_number :: "string \<Rightarrow> (int \<times> string) option" where
  "parse_number cs =
    (case cs of
       [] \<Rightarrow> None
     | c # r \<Rightarrow>
         if c = CHR ''-'' then map_option (\<lambda>(n, r'). (- int n, r')) (parse_nat r)
         else map_option (\<lambda>(n, r'). (int n, r')) (parse_nat cs))"

definition literal :: "string \<Rightarrow> json \<Rightarrow> string \<Rightarrow> (json \<times> string) option" where
  "literal w v cs = (if take (length w) cs = w then Some (v, drop (length w) cs) else None)"

text \<open>A key that occurs twice in an object text keeps its first position and takes its
  last value.\<close>

definition upsert :: "(string \<times> json) list \<Rightarrow> string \<times> json \<Rightarrow> (string \<times> json) list" where
  "upsert ms kv =
    (if fst kv \<in> fst ` set ms then map (\<lambda>(k, v). if k = fst kv then kv else (k, v)) ms
     else ms @ [kv])"

lemma skip_ws_length: "length (skip_ws cs) \<le> length cs"
  by (induction cs) auto

lemma parse_string_body_length:
  "parse_string_body cs = Some (s, r) \<Longrightarrow> length r < length cs"
proof (induction cs arbitrary: s r rule: parse_string_body.induct)
  case 1
  then show ?case by simp
next
  case (2 c cs)
  show ?case
    using "2.prems" "2.IH"
    by (fastforce simp: prepend_def split: if_splits list.splits option.splits)
qed

text \<open>A value, the elements of a non-empty array after its bracket, and the members of a
  non-empty object after its brace; each returns the text that follows. The tests
  \<open>length r < length cs\<close> always succeed (\<open>parse_consumes\<close> below): they make the recursion
  on the rest of the text visibly terminating.\<close>

function parse_value :: "string \<Rightarrow> (json \<times> string) option"
  and parse_elements :: "string \<Rightarrow> (json list \<times> string) option"
  and parse_members :: "string \<Rightarrow> ((string \<times> json) list \<times> string) option"
where
  "parse_value [] = None"
| "parse_value (c # cs) =
    (if is_ws c then parse_value cs
     else if c = CHR ''n'' then literal ''ull'' JNull cs
     else if c = CHR ''t'' then literal ''rue'' (JBool True) cs
     else if c = CHR ''f'' then literal ''alse'' (JBool False) cs
     else if c = CHR 0x22 then
       (case parse_string_body cs of
          None \<Rightarrow> None
        | Some (s, r) \<Rightarrow> Some (JStr s, r))
     else if c = CHR ''['' then
       (case skip_ws cs of
          [] \<Rightarrow> None
        | d # r \<Rightarrow>
            if d = CHR '']'' then Some (JArr [], r)
            else (case parse_elements (d # r) of
                    None \<Rightarrow> None
                  | Some (vs, r') \<Rightarrow> Some (JArr vs, r')))
     else if c = CHR ''{'' then
       (case skip_ws cs of
          [] \<Rightarrow> None
        | d # r \<Rightarrow>
            if d = CHR ''}'' then Some (JObj [], r)
            else (case parse_members (d # r) of
                    None \<Rightarrow> None
                  | Some (ms, r') \<Rightarrow> Some (JObj (foldl upsert [] ms), r')))
     else (case parse_number (c # cs) of
             None \<Rightarrow> None
           | Some (n, r) \<Rightarrow> Some (JNum n, r)))"
| "parse_elements cs =
    (case parse_value cs of
       None \<Rightarrow> None
     | Some (v, r) \<Rightarrow>
         if length r < length cs then
           (case skip_ws r of
              [] \<Rightarrow> None
            | d # r' \<Rightarrow>
                if d = CHR '','' then
                  (case parse_elements r' of
                     None \<Rightarrow> None
                   | Some (vs, r'') \<Rightarrow> Some (v # vs, r''))
                else if d = CHR '']'' then Some ([v], r')
                else None)
         else None)"
| "parse_members cs =
    (case skip_ws cs of
       [] \<Rightarrow> None
     | q # r0 \<Rightarrow>
         if q = CHR 0x22 then
           (case parse_string_body r0 of
              None \<Rightarrow> None
            | Some (k, r1) \<Rightarrow>
                (case skip_ws r1 of
                   [] \<Rightarrow> None
                 | c # r2 \<Rightarrow>
                     if c = CHR '':'' then
                       (case parse_value r2 of
                          None \<Rightarrow> None
                        | Some (v, r3) \<Rightarrow>
                            if length r3 < length r2 then
                              (case skip_ws r3 of
                                 [] \<Rightarrow> None
                               | d # r4 \<Rightarrow>
                                   if d = CHR '','' then
                                     (case parse_members r4 of
                                        None \<Rightarrow> None
                                      | Some (ms, r5) \<Rightarrow> Some ((k, v) # ms, r5))
                                   else if d = CHR ''}'' then Some ([(k, v)], r4)
                                   else None)
                            else None)
                     else None))
         else None)"
  by pat_completeness auto
termination
proof (relation "measure (\<lambda>x. case x of
          Inl cs \<Rightarrow> 2 * length cs
        | Inr (Inl cs) \<Rightarrow> 2 * length cs + 1
        | Inr (Inr cs) \<Rightarrow> 2 * length cs + 1)", goal_cases)
  case 1
  show ?case by simp
next
  case (2 c cs)
  then show ?case by simp
next
  case (3 c cs d r)
  have "length (skip_ws cs) \<le> length cs" by (rule skip_ws_length)
  with 3 show ?case by simp
next
  case (4 c cs d r)
  have "length (skip_ws cs) \<le> length cs" by (rule skip_ws_length)
  with 4 show ?case by simp
next
  case (5 cs)
  show ?case by simp
next
  case (6 cs x2 v r d r')
  have "length (skip_ws r) \<le> length r" by (rule skip_ws_length)
  with 6 show ?case by simp
next
  case (7 cs q r0 x2 k r1 c r2)
  have "length (skip_ws cs) \<le> length cs" "length (skip_ws r1) \<le> length r1"
    by (rule skip_ws_length)+
  moreover have "length r1 < length r0"
    using 7 parse_string_body_length [of r0 k r1] by auto
  ultimately show ?case using 7 by simp
next
  case (8 cs q r0 x2 k r1 c r2 x2a v r3 d r4)
  have "length (skip_ws cs) \<le> length cs" "length (skip_ws r1) \<le> length r1"
    "length (skip_ws r3) \<le> length r3"
    by (rule skip_ws_length)+
  moreover have "length r1 < length r0"
    using 8 parse_string_body_length [of r0 k r1] by auto
  ultimately show ?case using 8 by simp
qed

declare parse_elements.simps [simp del] parse_members.simps [simp del]

text \<open>\<^verbatim>\<open>JSON.parse(text)\<close>: one value, white space around it, nothing else.\<close>

definition JSON_parse :: "string \<Rightarrow> json option" where
  "JSON_parse cs =
    (case parse_value cs of
       None \<Rightarrow> None
     | Some (v, r) \<Rightarrow> if skip_ws r = [] then Some v else None)"

section \<open>The wire format\<close>

text \<open>A \<^verbatim>\<open>Buffer\<close> is the list of its bytes; a \<open>char\<close> is one byte.\<close>

type_synonym buffer = string

text \<open>What the code, or a platform call it makes, can raise.\<close>

datatype error = RangeError | TypeError | Could_not_connect | ENOENT

text \<open>The enum \<^verbatim>\<open>IPC_OPERATION\<close> with its codes, and the reverse mapping
  \<^verbatim>\<open>IPC_OPERATION[op]\<close> that the diagnostics print (\<^verbatim>\<open>undefined\<close> for any other number).\<close>

datatype IPC_OPERATION = HANDSHAKE | FRAME | CLOSE | PING | PONG

fun op_code :: "IPC_OPERATION \<Rightarrow> nat" where
  "op_code HANDSHAKE = 0"
| "op_code FRAME = 1"
| "op_code CLOSE = 2"
| "op_code PING = 3"
| "op_code PONG = 4"

definition op_name :: "nat \<Rightarrow> string" where
  "op_name n =
    (if n = 0 then ''HANDSHAKE'' else if n = 1 then ''FRAME'' else if n = 2 then ''CLOSE''
     else if n = 3 then ''PING'' else if n = 4 then ''PONG'' else ''undefined'')"

text \<open>\<^verbatim>\<open>buf.writeUInt32LE(value, offset)\<close> stores four bytes, least significant first, and raises
  a \<^verbatim>\<open>RangeError\<close> for a value that does not fit; \<^verbatim>\<open>buf.readUInt32LE(offset)\<close> raises it
  when four bytes are not there.\<close>

definition le32 :: "nat \<Rightarrow> buffer" where
  "le32 v = [char_of v, char_of (v div 0x100), char_of (v div 0x10000), char_of (v div 0x1000000)]"

definition writeUInt32LE :: "nat \<Rightarrow> error + buffer" where
  "writeUInt32LE v = (if v < 2 ^ 32 then Inr (le32 v) else Inl RangeError)"

definition readUInt32LE :: "buffer \<Rightarrow> nat \<Rightarrow> error + nat" where
  "readUInt32LE data off =
    (case take 4 (drop off data) of
       [a, b, c, d] \<Rightarrow>
         Inr (of_char a + 0x100 * of_char b + 0x10000 * of_char c + 0x1000000 * of_char d)
     | _ \<Rightarrow> Inl RangeError)"

text \<open>The packet \<^verbatim>\<open>send\<close> builds (\<^verbatim>\<open>ipcTransport.ts\<close>, the body of \<^verbatim>\<open>send\<close> from
  \<^verbatim>\<open>const dataBuffer\<close> to \<^verbatim>\<open>Buffer.concat\<close>): a payload that is absent or falsy gives an empty
  data buffer.\<close>

definition dataBuffer :: "json option \<Rightarrow> buffer" where
  "dataBuffer payload =
    (case payload of
       None \<Rightarrow> []
     | Some p \<Rightarrow> if truthy p then JSON_stringify p else [])"

definition encode :: "IPC_OPERATION \<Rightarrow> json option \<Rightarrow> error + buffer" where
  "encode operation payload =
    (case writeUInt32LE (op_code operation) of
       Inl e \<Rightarrow> Inl e
     | Inr code \<Rightarrow>
         (case writeUInt32LE (length (dataBuffer payload)) of
            Inl e \<Rightarrow> Inl e
          | Inr len \<Rightarrow> Inr (code @ len @ dataBuffer payload)))"

text \<open>What the \<^verbatim>\<open>readable\<close> handler makes of the bytes it has drained, from the test
  \<^verbatim>\<open>data.length < 8\<close> to the \<^verbatim>\<open>catch\<close> around \<^verbatim>\<open>JSON.parse\<close>: nothing to do, a malformed
  packet, or an operation code with its parsed payload.\<close>

datatype decoded = NoData | Malformed | Packet nat json

definition decode :: "buffer \<Rightarrow> error + decoded" where
  "decode data =
    (if length data < 8 then (if length data = 0 then Inr NoData else Inr Malformed)
     else
       (case readUInt32LE data 0 of
          Inl e \<Rightarrow> Inl e
        | Inr op \<Rightarrow>
            (case readUInt32LE data 4 of
               Inl e \<Rightarrow> Inl e
             | Inr len \<Rightarrow>
                 if length data \<noteq> len + 8 then Inr Malformed
                 else
                   (case JSON_parse (take len (drop 8 data)) of
                      None \<Rightarrow> Inr Malformed
                    | Some parsedData \<Rightarrow> Inr (Packet op parsedData)))))"

section \<open>The transport\<close>

text \<open>
  The state of an \<^verbatim>\<open>IpcTransport\<close> and of the \<^verbatim>\<open>net.Socket\<close> it holds. Of the socket the
  model keeps its state, the chunks that successive \<^verbatim>\<open>read()\<close> calls return before \<^verbatim>\<open>null\<close>,
  whether \<^verbatim>\<open>end()\<close> was called, and the number of \<^verbatim>\<open>readable\<close> handlers attached.

  The listeners of the transport are the two closures the code registers: the one of the
  \<^verbatim>\<open>Client\<close> constructor on \<open>message\<close> and the one of \<^verbatim>\<open>connect\<close> on \<open>close\<close>. The listeners of
  the client belong to the application. Three traces record what leaves the transport: the
  calls of its own \<^verbatim>\<open>emit\<close>, the calls of \<^verbatim>\<open>client.emit\<close> (event and arguments), and the
  buffers given to \<^verbatim>\<open>socket.write\<close>.
\<close>

datatype ready_state = Opening | Open | ReadOnly | WriteOnly | Closed

record net_socket =
  socket_path :: string
  readyState :: ready_state
  unread :: "buffer list"
  ended :: bool
  readable_handlers :: nat

datatype listener = Client_message | Transport_close

record transport =
  clientId :: string
  socket :: "net_socket option"
  listeners :: "string \<rightharpoonup> listener list"
  emitted :: "(string \<times> json option list) list"
  client_emitted :: "(json option \<times> json option list) list"
  written :: "buffer list"

definition isConnected :: "transport \<Rightarrow> bool" where
  "isConnected s = (case socket s of None \<Rightarrow> False | Some k \<Rightarrow> readyState k = Open)"

definition client_emit :: "json option \<Rightarrow> json option list \<Rightarrow> transport \<Rightarrow> transport" where
  "client_emit event args s = s\<lparr>client_emitted := client_emitted s @ [(event, args)]\<rparr>"

definition debug :: "string \<Rightarrow> json option list \<Rightarrow> transport \<Rightarrow> transport" where
  "debug text rest s = client_emit (Some (JStr ''debug'')) (Some (JStr text) # rest) s"

subsection \<open>\<^verbatim>\<open>EventEmitter\<close>\<close>

definition on :: "string \<Rightarrow> listener \<Rightarrow> transport \<Rightarrow> transport" where
  "on event callback s =
    (case listeners s event of
       None \<Rightarrow> s\<lparr>listeners := (listeners s)(event \<mapsto> [callback])\<rparr>
     | Some eventListeners \<Rightarrow> s\<lparr>listeners := (listeners s)(event \<mapsto> eventListeners @ [callback])\<rparr>)"

definition arg0 :: "json option list \<Rightarrow> json option" where
  "arg0 args = (case args of [] \<Rightarrow> None | a # _ \<Rightarrow> a)"

text \<open>The bodies of the two closures. The one on \<open>close\<close> clears the socket and forwards the
  reason to the client. The one on \<open>message\<close> reads \<^verbatim>\<open>message.cmd\<close>, which raises a
  \<^verbatim>\<open>TypeError\<close> on \<^verbatim>\<open>null\<close> and \<^verbatim>\<open>undefined\<close>.\<close>

fun call :: "listener \<Rightarrow> json option list \<Rightarrow> transport \<Rightarrow> error + transport" where
  "call Transport_close args s =
     Inr (client_emit (Some (JStr ''close'')) [arg0 args] (s\<lparr>socket := None\<rparr>))"
| "call Client_message args s =
    (case arg0 args of
       None \<Rightarrow> Inl TypeError
     | Some JNull \<Rightarrow> Inl TypeError
     | Some message \<Rightarrow>
         if property message ''cmd'' = Some (JStr ''DISPATCH'') \<and> property message ''evt'' = Some (JStr ''READY'')
         then Inr (client_emit (Some (JStr ''ready'')) [] s)
         else Inr (client_emit (property message ''evt'') [property message ''data''] s))"

fun call_all :: "listener list \<Rightarrow> json option list \<Rightarrow> transport \<Rightarrow> error + transport" where
  "call_all [] args s = Inr s"
| "call_all (l # ls) args s =
    (case call l args s of
       Inl e \<Rightarrow> Inl e
     | Inr s' \<Rightarrow> call_all ls args s')"

definition emit :: "string \<Rightarrow> json option list \<Rightarrow> transport \<Rightarrow> error + transport" where
  "emit event args s =
    call_all (case listeners s event of None \<Rightarrow> [] | Some ls \<Rightarrow> ls) args
      (s\<lparr>emitted := emitted s @ [(event, args)]\<rparr>)"

subsection \<open>\<^verbatim>\<open>send\<close>, \<^verbatim>\<open>ping\<close> and \<^verbatim>\<open>close\<close>\<close>

text \<open>\<^verbatim>\<open>this.socket?.write(...)\<close>: nothing happens without a socket.\<close>

definition socket_write :: "buffer \<Rightarrow> transport \<Rightarrow> transport" where
  "socket_write bytes s =
    (case socket s of
       None \<Rightarrow> s
     | Some k \<Rightarrow> s\<lparr>written := written s @ [bytes]\<rparr>)"

definition send :: "IPC_OPERATION \<Rightarrow> json option \<Rightarrow> transport \<Rightarrow> error + transport" where
  "send operation payload s =
    (let s1 = debug (''CLIENT => SERVER | OPCODE.'' @ op_name (op_code operation) @ '' |'') [payload] s
     in case encode operation payload of
          Inl e \<Rightarrow> Inl e
        | Inr packet \<Rightarrow> Inr (socket_write packet s1))"

text \<open>\<^verbatim>\<open>crypto.randomUUID()\<close> is an input of the model.\<close>

definition ping :: "string \<Rightarrow> transport \<Rightarrow> error + transport" where
  "ping uuid s = send PING (Some (JStr uuid)) s"

text \<open>
  \<^verbatim>\<open>close()\<close> returns a resolved promise when there is no socket. Otherwise it registers a
  one-shot listener on the socket's \<open>close\<close> event, calls \<^verbatim>\<open>end()\<close> and returns a pending
  promise; \<open>close_acknowledged\<close> is the body of that listener, which runs when the platform
  reports the socket closed and then resolves the promise.
\<close>

datatype promise = Resolved | Pending

definition closed_by_client :: json where
  "closed_by_client = JObj [(''code'', JNum (- 1)), (''message'', JStr ''Closed by client'')]"

definition close :: "transport \<Rightarrow> promise \<times> transport" where
  "close s =
    (case socket s of
       None \<Rightarrow> (Resolved, s)
     | Some k \<Rightarrow> (Pending, s\<lparr>socket := Some (k\<lparr>ended := True\<rparr>)\<rparr>))"

definition close_acknowledged :: "transport \<Rightarrow> error + transport" where
  "close_acknowledged s =
    (case emit ''close'' [Some closed_by_client] s of
       Inl e \<Rightarrow> Inl e
     | Inr s' \<Rightarrow> Inr (s'\<lparr>socket := None\<rparr>))"

subsection \<open>The \<^verbatim>\<open>readable\<close> handler\<close>

definition upper_hex :: "nat \<Rightarrow> char" where
  "upper_hex d = (if d < 10 then char_of (48 + d) else char_of (55 + d))"

fun spaced :: "string list \<Rightarrow> string" where
  "spaced [] = []"
| "spaced [x] = x"
| "spaced (x # y # ys) = x @ CHR 0x20 # spaced (y # ys)"

text \<open>The text of \<^verbatim>\<open>chunk.toString("hex").match(/.{1,2}/g)?.join(" ").toUpperCase()\<close> in a
  template literal; the match of an empty text is \<^verbatim>\<open>null\<close>.\<close>

definition hex_dump :: "buffer \<Rightarrow> string" where
  "hex_dump chunk =
    (if chunk = [] then ''undefined''
     else spaced (map (\<lambda>c. [upper_hex (of_char c div 16), upper_hex (of_char c mod 16)]) chunk))"

definition malformed_packet :: string where
  "malformed_packet = ''SERVER => CLIENT | Malformed packet, invalid payload''"

text \<open>The loop that drains the socket: it stops when the transport is not connected or
  \<^verbatim>\<open>read()\<close> has nothing more, and reports every chunk on the \<open>debug\<close> channel.\<close>

function drain :: "buffer \<Rightarrow> transport \<Rightarrow> buffer \<times> transport" where
  "drain data s =
    (if \<not> isConnected s then (data, s)
     else
       (case socket s of
          None \<Rightarrow> (data, s)
        | Some k \<Rightarrow>
            (case unread k of
               [] \<Rightarrow> (data, s)
             | chunk # rest \<Rightarrow>
                 drain (data @ chunk)
                   (debug (''SERVER => CLIENT | '' @ hex_dump chunk) []
                     (s\<lparr>socket := Some (k\<lparr>unread := rest\<rparr>)\<rparr>)))))"
  by pat_completeness auto
termination
  by (relation "measure (\<lambda>(data, s). case socket s of None \<Rightarrow> 0 | Some k \<Rightarrow> length (unread k))")
    (auto simp: debug_def client_emit_def)

declare drain.simps [simp del]

text \<open>The \<^verbatim>\<open>switch (op)\<close>. The test \<^verbatim>\<open>if (!data) break\<close> of the \<open>FRAME\<close> case is on a
  \<^verbatim>\<open>Buffer\<close>, which is never falsy.\<close>

definition dispatch :: "nat \<Rightarrow> json \<Rightarrow> transport \<Rightarrow> error + transport" where
  "dispatch op parsedData s =
    (if op = op_code FRAME then emit ''message'' [Some parsedData] s
     else if op = op_code CLOSE then emit ''close'' [Some parsedData] s
     else if op = op_code PING then
       (case send PONG (Some parsedData) s of
          Inl e \<Rightarrow> Inl e
        | Inr s' \<Rightarrow> emit ''ping'' [] s')
     else Inr s)"

definition readable :: "transport \<Rightarrow> error + transport" where
  "readable s =
    (case drain [] s of
       (data, s1) \<Rightarrow>
         (case decode data of
            Inl e \<Rightarrow> Inl e
          | Inr NoData \<Rightarrow> Inr s1
          | Inr Malformed \<Rightarrow> Inr (debug malformed_packet [] s1)
          | Inr (Packet op parsedData) \<Rightarrow>
              dispatch op parsedData
                (debug (''SERVER => CLIENT | OPCODE.'' @ op_name op @ '' |'') [Some parsedData] s1)))"

text \<open>One run of the handler in terms of what the socket holds: the bytes it will drain,
  the report of a chunk on the \<open>debug\<close> channel, and the state after the loop.\<close>

definition received :: "transport \<Rightarrow> buffer" where
  "received s = (case socket s of None \<Rightarrow> [] | Some k \<Rightarrow> concat (unread k))"

definition chunk_report :: "buffer \<Rightarrow> json option \<times> json option list" where
  "chunk_report chunk =
    (Some (JStr ''debug''), [Some (JStr (''SERVER => CLIENT | '' @ hex_dump chunk))])"

definition drained :: "transport \<Rightarrow> transport" where
  "drained s =
    (case socket s of
       None \<Rightarrow> s
     | Some k \<Rightarrow>
         s\<lparr>socket := Some (k\<lparr>unread := []\<rparr>),
           client_emitted := client_emitted s @ map chunk_report (unread k)\<rparr>)"

subsection \<open>Socket discovery\<close>

text \<open>
  What \<^verbatim>\<open>getSocket\<close> reads from its surroundings: \<^verbatim>\<open>process.platform\<close>, four environment
  variables, \<^verbatim>\<open>process.pid\<close>, the file system (\<^verbatim>\<open>fs.realpathSync\<close> raises on a path that does
  not exist, here with result \<open>None\<close>; \<^verbatim>\<open>fs.existsSync\<close>), and whether
  \<^verbatim>\<open>net.createConnection(path)\<close> reaches \<open>connect\<close> rather than \<open>error\<close>.
\<close>

record host =
  platform :: string
  XDG_RUNTIME_DIR :: "string option"
  TMPDIR :: "string option"
  TMP :: "string option"
  TEMP :: "string option"
  process_pid :: "int option"
  realpathSync :: "string \<Rightarrow> string option"
  existsSync :: "string \<Rightarrow> bool"
  connects :: "string \<Rightarrow> bool"

text \<open>\<^verbatim>\<open>path.sep\<close>, \<^verbatim>\<open>path.join\<close> and \<^verbatim>\<open>path.dirname\<close> of a POSIX platform, on the paths the
  rules build: a resolved, absolute directory followed by plain names.\<close>

definition path_sep :: "host \<Rightarrow> string" where
  "path_sep h = (if platform h = ''win32'' then [CHR 0x5C] else ''/'')"

fun path_join :: "string \<Rightarrow> string list \<Rightarrow> string" where
  "path_join p [] = p"
| "path_join p (x # xs) =
    path_join (if p \<noteq> [] \<and> last p = CHR ''/'' then p @ x else p @ CHR ''/'' # x) xs"

definition path_dirname :: "string \<Rightarrow> string" where
  "path_dirname p =
    (let d = rev (dropWhile (\<lambda>c. c \<noteq> CHR ''/'') (rev p))
     in if d = [] then ''.'' else if d = ''/'' then ''/'' else butlast d)"

text \<open>\<^verbatim>\<open>fs.realpathSync(XDG_RUNTIME_DIR ?? TMPDIR ?? TMP ?? TEMP ?? `${path.sep}tmp`)\<close>\<close>

definition prefix :: "host \<Rightarrow> error + string" where
  "prefix h =
    (let dir =
       (case XDG_RUNTIME_DIR h of
          Some d \<Rightarrow> d
        | None \<Rightarrow>
            (case TMPDIR h of
               Some d \<Rightarrow> d
             | None \<Rightarrow>
                 (case TMP h of
                    Some d \<Rightarrow> d
                  | None \<Rightarrow> (case TEMP h of Some d \<Rightarrow> d | None \<Rightarrow> path_sep h @ ''tmp''))))
     in case realpathSync h dir of
          None \<Rightarrow> Inl ENOENT
        | Some p \<Rightarrow> Inr p)"

text \<open>The four entries of \<^verbatim>\<open>pathList\<close>, in the order of the source.\<close>

record rule =
  platforms :: "string list"
  format :: "host \<Rightarrow> nat \<Rightarrow> error + string"

definition under_prefix :: "string list \<Rightarrow> host \<Rightarrow> nat \<Rightarrow> error + string" where
  "under_prefix dirs h ident =
    (case prefix h of
       Inl e \<Rightarrow> Inl e
     | Inr p \<Rightarrow> Inr (path_join p (dirs @ [''discord-ipc-'' @ show_nat ident])))"

definition pathList :: "rule list" where
  "pathList =
    [\<lparr>platforms = [''win32''],
      format = (\<lambda>h ident. Inr ([CHR 0x5C, CHR 0x5C, CHR ''?'', CHR 0x5C] @ ''pipe'' @ [CHR 0x5C]
                          @ ''discord-ipc-'' @ show_nat ident))\<rparr>,
     \<lparr>platforms = [''darwin'', ''linux''], format = under_prefix []\<rparr>,
     \<lparr>platforms = [''linux''], format = under_prefix [''snap.discord'']\<rparr>,
     \<lparr>platforms = [''linux''], format = under_prefix [''app'', ''com.discordapp.Discord'']\<rparr>]"

text \<open>\<^verbatim>\<open>createSocket(path)\<close> resolves with an open socket or rejects.\<close>

definition createSocket :: "host \<Rightarrow> string \<Rightarrow> net_socket option" where
  "createSocket h p =
    (if connects h p
     then Some \<lparr>socket_path = p, readyState = Open, unread = [], ended = False,
                readable_handlers = 0\<rparr>
     else None)"

definition handleSocketId :: "host \<Rightarrow> rule \<Rightarrow> nat \<Rightarrow> error + net_socket option" where
  "handleSocketId h pat ident =
    (if platform h \<notin> set (platforms pat) then Inr None
     else
       (case format pat h ident of
          Inl e \<Rightarrow> Inl e
        | Inr socketPath \<Rightarrow>
            if platform h \<noteq> ''win32'' \<and> \<not> existsSync h (path_dirname socketPath) then Inr None
            else Inr (createSocket h socketPath)))"

text \<open>The inner loop \<^verbatim>\<open>for (let i = 0; i < 10; i++)\<close>, on the values of \<open>i\<close> still to try, and
  the outer loop over \<^verbatim>\<open>pathList\<close>, which ends in \<^verbatim>\<open>throw new Error("Could not connect")\<close>.\<close>

fun try_ids :: "host \<Rightarrow> rule \<Rightarrow> nat list \<Rightarrow> error + net_socket option" where
  "try_ids h pat [] = Inr None"
| "try_ids h pat (i # is) =
    (case handleSocketId h pat i of
       Inl e \<Rightarrow> Inl e
     | Inr (Some k) \<Rightarrow> Inr (Some k)
     | Inr None \<Rightarrow> try_ids h pat is)"

fun try_rules :: "host \<Rightarrow> rule list \<Rightarrow> error + net_socket" where
  "try_rules h [] = Inl Could_not_connect"
| "try_rules h (pat # pats) =
    (case try_ids h pat [0..<10] of
       Inl e \<Rightarrow> Inl e
     | Inr (Some k) \<Rightarrow> Inr k
     | Inr None \<Rightarrow> try_rules h pats)"

definition getSocket :: "host \<Rightarrow> transport \<Rightarrow> error + net_socket" where
  "getSocket h s =
    (case socket s of
       Some k \<Rightarrow> Inr k
     | None \<Rightarrow> try_rules h pathList)"

subsection \<open>\<^verbatim>\<open>connect\<close>\<close>

text \<open>\<^verbatim>\<open>this.socket.on("readable", ...)\<close> raises a \<^verbatim>\<open>TypeError\<close> when the socket is gone.\<close>

definition on_readable :: "transport \<Rightarrow> error + transport" where
  "on_readable s =
    (case socket s of
       None \<Rightarrow> Inl TypeError
     | Some k \<Rightarrow> Inr (s\<lparr>socket := Some (k\<lparr>readable_handlers := readable_handlers k + 1\<rparr>)\<rparr>))"

definition connect :: "host \<Rightarrow> transport \<Rightarrow> error + transport" where
  "connect h s =
    (case getSocket h s of
       Inl e \<Rightarrow> Inl e
     | Inr k \<Rightarrow>
         (case emit ''open'' [] (s\<lparr>socket := Some k\<rparr>) of
            Inl e \<Rightarrow> Inl e
          | Inr s1 \<Rightarrow>
              (case send HANDSHAKE
                      (Some (JObj [(''v'', JNum 1), (''client_id'', JStr (clientId s1))])) s1 of
                 Inl e \<Rightarrow> Inl e
               | Inr s2 \<Rightarrow>
                   (case on_readable s2 of
                      Inl e \<Rightarrow> Inl e
                    | Inr s3 \<Rightarrow> Inr (on ''close'' Transport_close s3)))))"

section \<open>The client\<close>

text \<open>A new \<^verbatim>\<open>Client\<close>: a transport without a socket and with the constructor's listener on
  \<open>message\<close>.\<close>

definition Client :: "string \<Rightarrow> transport" where
  "Client cid =
    \<lparr>clientId = cid, socket = None, listeners = [''message'' \<mapsto> [Client_message]],
     emitted = [], client_emitted = [], written = []\<rparr>"

definition login :: "host \<Rightarrow> transport \<Rightarrow> error + transport" where
  "login h s = connect h s"

definition destroy :: "transport \<Rightarrow> promise \<times> transport" where
  "destroy s = close s"

text \<open>\<^verbatim>\<open>#request(cmd, args)\<close> sends \<^verbatim>\<open>{cmd, args, nonce}\<close>; a property whose value is
  \<^verbatim>\<open>undefined\<close> is not part of the JSON text and not part of the model's object.\<close>

definition request :: "string \<Rightarrow> json option \<Rightarrow> string \<Rightarrow> transport \<Rightarrow> error + transport" where
  "request cmd args nonce s =
    send FRAME
      (Some (JObj ([(''cmd'', JStr cmd)]
                   @ (case args of None \<Rightarrow> [] | Some a \<Rightarrow> [(''args'', a)])
                   @ [(''nonce'', JStr nonce)]))) s"

text \<open>The interface \<^verbatim>\<open>Activity\<close>. An optional property is an \<open>option\<close>; a timestamp is a
  number (a \<^verbatim>\<open>Date\<close> is not a JSON value).\<close>

datatype ActivityType = Playing | Listening | Watching | Competing

fun ActivityType_code :: "ActivityType \<Rightarrow> int" where
  "ActivityType_code Playing = 0"
| "ActivityType_code Listening = 2"
| "ActivityType_code Watching = 3"
| "ActivityType_code Competing = 5"

record ActivityTimestamps =
  start :: "int option"
  end_time :: "int option"

record ActivityAssets =
  large_image :: "string option"
  large_text :: "string option"
  small_image :: "string option"
  small_text :: "string option"

record ActivityButton =
  label :: string
  url :: string

record Activity =
  state :: "string option"
  details :: "string option"
  timestamps :: "ActivityTimestamps option"
  assets :: "ActivityAssets option"
  buttons :: "ActivityButton list option"
  activity_type :: "ActivityType option"

text \<open>The object an \<^verbatim>\<open>Activity\<close> is, as a JSON value: the properties that are present.\<close>

definition field :: "string \<Rightarrow> ('a \<Rightarrow> json) \<Rightarrow> 'a option \<Rightarrow> (string \<times> json) list" where
  "field k f v = (case v of None \<Rightarrow> [] | Some x \<Rightarrow> [(k, f x)])"

definition timestamps_json :: "ActivityTimestamps \<Rightarrow> json" where
  "timestamps_json t = JObj (field ''start'' JNum (start t) @ field ''end'' JNum (end_time t))"

definition assets_json :: "ActivityAssets \<Rightarrow> json" where
  "assets_json a =
    JObj (field ''large_image'' JStr (large_image a) @ field ''large_text'' JStr (large_text a)
          @ field ''small_image'' JStr (small_image a) @ field ''small_text'' JStr (small_text a))"

definition button_json :: "ActivityButton \<Rightarrow> json" where
  "button_json b = JObj [(''label'', JStr (label b)), (''url'', JStr (url b))]"

definition Activity_json :: "Activity \<Rightarrow> json" where
  "Activity_json a =
    JObj (field ''state'' JStr (state a) @ field ''details'' JStr (details a)
          @ field ''timestamps'' timestamps_json (timestamps a)
          @ field ''assets'' assets_json (assets a)
          @ field ''buttons'' (\<lambda>bs. JArr (map button_json bs)) (buttons a)
          @ field ''type'' (\<lambda>t. JNum (ActivityType_code t)) (activity_type a))"

text \<open>The local \<^verbatim>\<open>cleaned\<close> that \<^verbatim>\<open>setActivity\<close> builds: a property is copied when it is
  truthy, an object when it has an entry, and a type other than \<open>Playing\<close> (which is 0 and
  falsy) becomes \<open>Playing\<close>, since every type is in the list that is tested.\<close>

definition keep_string :: "string option \<Rightarrow> string option" where
  "keep_string v = (case v of Some x \<Rightarrow> if x \<noteq> [] then Some x else None | None \<Rightarrow> None)"

definition keep_number :: "int option \<Rightarrow> int option" where
  "keep_number v = (case v of Some x \<Rightarrow> if x \<noteq> 0 then Some x else None | None \<Rightarrow> None)"

definition cleaned :: "Activity \<Rightarrow> Activity" where
  "cleaned activity =
    \<lparr>state = keep_string (state activity),
     details = keep_string (details activity),
     timestamps =
       (case timestamps activity of
          None \<Rightarrow> None
        | Some t \<Rightarrow>
            if start t \<noteq> None \<or> end_time t \<noteq> None
            then Some \<lparr>start = keep_number (start t), end_time = keep_number (end_time t)\<rparr>
            else None),
     assets =
       (case assets activity of
          None \<Rightarrow> None
        | Some a \<Rightarrow>
            if large_image a \<noteq> None \<or> large_text a \<noteq> None \<or> small_image a \<noteq> None
               \<or> small_text a \<noteq> None
            then Some \<lparr>large_image = keep_string (large_image a),
                       large_text = keep_string (large_text a),
                       small_image = keep_string (small_image a),
                       small_text = keep_string (small_text a)\<rparr>
            else None),
     buttons =
       (case buttons activity of
          None \<Rightarrow> None
        | Some bs \<Rightarrow>
            if length bs > 0 then Some (map (\<lambda>button. \<lparr>label = label button, url = url button\<rparr>) bs)
            else None),
     activity_type =
       (case activity_type activity of
          None \<Rightarrow> None
        | Some t \<Rightarrow>
            if ActivityType_code t \<noteq> 0
            then (if t \<in> set [Playing, Listening, Watching, Competing] then Some Playing else Some t)
            else None)\<rparr>"

text \<open>\<^verbatim>\<open>(pid ?? process) ? (process.pid ?? 0) : 0\<close>: the argument, or \<^verbatim>\<open>process\<close> when it is
  absent, is only tested for truthiness.\<close>

definition pid_field :: "host \<Rightarrow> int option \<Rightarrow> int" where
  "pid_field h pid =
    (if (case pid of None \<Rightarrow> True | Some n \<Rightarrow> n \<noteq> 0)
     then (case process_pid h of Some p \<Rightarrow> p | None \<Rightarrow> 0)
     else 0)"

definition setActivity ::
  "host \<Rightarrow> Activity \<Rightarrow> int option \<Rightarrow> string \<Rightarrow> transport \<Rightarrow> error + transport" where
  "setActivity h activity pid nonce s =
    (let local_cleaned = cleaned activity
     in request ''SET_ACTIVITY''
          (Some (JObj [(''pid'', JNum (pid_field h pid)), (''activity'', Activity_json activity)]))
          nonce s)"

definition clearActivity :: "host \<Rightarrow> int option \<Rightarrow> string \<Rightarrow> transport \<Rightarrow> error + transport" where
  "clearActivity h pid nonce s =
    request ''CLEAR_ACTIVITY'' (Some (JObj [(''pid'', JNum (pid_field h pid))])) nonce s"

section \<open>A host and a connected client, for concrete runs\<close>

definition linux_host :: host where
  "linux_host =
    \<lparr>platform = ''linux'', XDG_RUNTIME_DIR = Some ''/run/user/1000'', TMPDIR = None, TMP = None,
     TEMP = None, process_pid = Some 4242,
     realpathSync = (\<lambda>p. if p = ''/run/user/1000'' then Some p else None),
     existsSync = (\<lambda>p. p = ''/run/user/1000''),
     connects = (\<lambda>p. p = ''/run/user/1000/discord-ipc-1'')\<rparr>"

definition open_socket :: net_socket where
  "open_socket =
    \<lparr>socket_path = ''/run/user/1000/discord-ipc-1'', readyState = Open, unread = [],
     ended = False, readable_handlers = 1\<rparr>"

definition connected_client :: transport where
  "connected_client =
    \<lparr>clientId = ''123'', socket = Some open_socket,
     listeners = [''message'' \<mapsto> [Client_message], ''close'' \<mapsto> [Transport_close]],
     emitted = [], client_emitted = [], written = []\<rparr>"

text \<open>The platform makes chunks available on the socket.\<close>

definition arrive :: "buffer list \<Rightarrow> transport \<Rightarrow> transport" where
  "arrive chunks s =
    (case socket s of
       None \<Rightarrow> s
     | Some k \<Rightarrow> s\<lparr>socket := Some (k\<lparr>unread := unread k @ chunks\<rparr>)\<rparr>)"

section \<open>Notions of the specification\<close>

text \<open>
  The specification speaks of a frame that is malformed and of the candidates of socket
  discovery. The definitions of this section follow its words, to be compared with the
  functions above, which follow the code.

  The length field of a header is the little-endian number in bytes 4 to 7. A byte sequence
  is malformed when it is shorter than a header without being empty, when its length is not 8
  plus the declared length, or when its payload does not parse.
\<close>

definition declared_length :: "buffer \<Rightarrow> nat" where
  "declared_length data =
    of_char (data ! 4) + 0x100 * of_char (data ! 5) + 0x10000 * of_char (data ! 6)
    + 0x1000000 * of_char (data ! 7)"

definition malformed_frame :: "buffer \<Rightarrow> bool" where
  "malformed_frame data =
    ((0 < length data \<and> length data < 8)
     \<or> (8 \<le> length data
        \<and> (length data \<noteq> 8 + declared_length data \<or> JSON_parse (drop 8 data) = None)))"

text \<open>The candidates in priority order: the named pipe on Windows, the socket in the
  runtime directory on macOS and Linux, then on Linux the one in the Snap and the one in the
  Flatpak subdirectory, each with the indices 0 to 9 in order. A candidate is reachable when
  its parent directory exists (not asked on Windows) and the connection succeeds; discovery
  yields the first reachable candidate, or fails when there is none.\<close>

definition socket_at :: "string \<Rightarrow> net_socket" where
  "socket_at p =
    \<lparr>socket_path = p, readyState = Open, unread = [], ended = False, readable_handlers = 0\<rparr>"

definition ipc_name :: "nat \<Rightarrow> string" where
  "ipc_name i = ''discord-ipc-'' @ show_nat i"

definition named_pipe :: "nat \<Rightarrow> string" where
  "named_pipe i = [CHR 0x5C, CHR 0x5C, CHR ''?'', CHR 0x5C] @ ''pipe'' @ [CHR 0x5C] @ ipc_name i"

definition candidates :: "host \<Rightarrow> string \<Rightarrow> string list" where
  "candidates h p =
    (if platform h = ''win32'' then map named_pipe [0..<10] else [])
    @ (if platform h = ''darwin'' \<or> platform h = ''linux''
       then map (\<lambda>i. path_join p [ipc_name i]) [0..<10] else [])
    @ (if platform h = ''linux''
       then map (\<lambda>i. path_join p [''snap.discord'', ipc_name i]) [0..<10] else [])
    @ (if platform h = ''linux''
       then map (\<lambda>i. path_join p [''app'', ''com.discordapp.Discord'', ipc_name i]) [0..<10]
       else [])"

definition reachable :: "host \<Rightarrow> string \<Rightarrow> bool" where
  "reachable h p = ((platform h = ''win32'' \<or> existsSync h (path_dirname p)) \<and> connects h p)"

definition locate :: "host \<Rightarrow> string \<Rightarrow> error + net_socket" where
  "locate h p =
    (case find (reachable h) (candidates h p) of
       None \<Rightarrow> Inl Could_not_connect
     | Some path \<Rightarrow> Inr (socket_at path))"

section \<open>Data for concrete runs\<close>

text \<open>The message of the specification's scenario, the handshake of \<^verbatim>\<open>connect\<close>, some frames as
  a peer would send them, an activity, and a host whose \<^verbatim>\<open>XDG_RUNTIME_DIR\<close> names a directory
  that does not exist.\<close>

definition scenario_payload :: json where
  "scenario_payload =
    JObj [(''cmd'', JStr ''SET_ACTIVITY''),
          (''args'', JObj [(''pid'', JNum 1234), (''activity'', JObj [(''state'', JStr ''x'')])]),
          (''nonce'', JStr ''abc'')]"

definition handshake :: "string \<Rightarrow> json" where
  "handshake cid = JObj [(''v'', JNum 1), (''client_id'', JStr cid)]"

definition empty_object_frame :: buffer where
  "empty_object_frame = le32 1 @ le32 2 @ ''{}''"



definition close_reason :: json where
  "close_reason = JObj [(''code'', JNum 4000), (''message'', JStr ''Invalid Client ID'')]"

definition close_frame :: buffer where
  "close_frame = le32 2 @ le32 (length (JSON_stringify close_reason)) @ JSON_stringify close_reason"

definition listening :: Activity where
  "listening =
    \<lparr>state = Some [], details = Some ''On air'',
     timestamps = Some \<lparr>start = Some 0, end_time = None\<rparr>, assets = None,
     buttons = Some [], activity_type = Some Listening\<rparr>"

definition stale_host :: host where
  "stale_host =
    linux_host\<lparr>realpathSync := (\<lambda>p. if p = ''/tmp'' then Some p else None),
                existsSync := (\<lambda>p. p = ''/tmp''),
                connects := (\<lambda>p. False)\<rparr>"

section \<open>Properties of the JSON text\<close>

subsection \<open>Numbers\<close>

lemma is_digit_digit_char: "d < 10 \<Longrightarrow> is_digit (digit_char d)"
  by (simp add: is_digit_def digit_char_def)

lemma digit_val_digit_char: "d < 10 \<Longrightarrow> digit_val (digit_char d) = d"
  by (simp add: digit_val_def digit_char_def)

lemma digit_char_0: "digit_char 0 = CHR ''0''"
  by code_simp

lemma digit_char_neq_zero: "0 < d \<Longrightarrow> d < 10 \<Longrightarrow> digit_char d \<noteq> CHR ''0''"
  by (auto simp: digit_char_def dest!: arg_cong [where f = "of_char :: char \<Rightarrow> nat"])

lemma parse_digits_show_nat:
  "parse_digits acc (show_nat n @ rest) = parse_digits (acc * 10 ^ length (show_nat n) + n) rest"
proof (induction n arbitrary: acc rest rule: show_nat.induct)
  case (1 n)
  show ?case
  proof (cases "n < 10")
    case True
    then show ?thesis
      by (simp add: show_nat.simps [of n] is_digit_digit_char digit_val_digit_char)
  next
    case False
    have d: "n mod 10 < 10" by simp
    have "parse_digits acc (show_nat n @ rest)
        = parse_digits acc (show_nat (n div 10) @ (digit_char (n mod 10) # rest))"
      using False by (simp add: show_nat.simps [of n])
    also have "\<dots> = parse_digits (acc * 10 ^ length (show_nat (n div 10)) + n div 10)
                        (digit_char (n mod 10) # rest)"
      using False by (rule "1.IH")
    also have "\<dots> = parse_digits
        ((acc * 10 ^ length (show_nat (n div 10)) + n div 10) * 10 + n mod 10) rest"
      using d by (simp add: is_digit_digit_char digit_val_digit_char)
    also have "(acc * 10 ^ length (show_nat (n div 10)) + n div 10) * 10 + n mod 10
             = acc * 10 ^ length (show_nat n) + n"
      using False by (simp add: show_nat.simps [of n] algebra_simps)
    finally show ?thesis .
  qed
qed

lemma show_nat_head:
  "0 < n \<Longrightarrow> \<exists>d cs. show_nat n = digit_char d # cs \<and> 0 < d \<and> d < 10"
proof (induction n rule: show_nat.induct)
  case (1 n)
  show ?case
  proof (cases "n < 10")
    case True
    with "1.prems" show ?thesis
      by (auto simp: show_nat.simps [of n] intro!: exI [of _ n])
  next
    case False
    then have "0 < n div 10" by simp
    with False "1.IH" obtain d cs where "show_nat (n div 10) = digit_char d # cs" "0 < d" "d < 10"
      by blast
    with False show ?thesis by (auto simp: show_nat.simps [of n])
  qed
qed

lemma show_nat_digit: "show_nat n = c # cs \<Longrightarrow> is_digit c"
proof (induction n arbitrary: c cs rule: show_nat.induct)
  case (1 n)
  show ?case
  proof (cases "n < 10")
    case True
    with "1.prems" show ?thesis by (auto simp: show_nat.simps [of n] is_digit_digit_char)
  next
    case False
    with "1.prems" have "show_nat (n div 10) @ [digit_char (n mod 10)] = c # cs"
      by (simp add: show_nat.simps [of n])
    then show ?thesis
      using "1.IH" [OF False] by (cases "show_nat (n div 10)") (auto simp: is_digit_digit_char)
  qed
qed

lemma show_nat_nonempty: "show_nat n \<noteq> []"
  by (simp add: show_nat.simps [of n])

definition no_digit :: "string \<Rightarrow> bool" where
  "no_digit r = (case r of [] \<Rightarrow> True | c # _ \<Rightarrow> \<not> is_digit c)"

lemma parse_digits_no_digit: "no_digit r \<Longrightarrow> parse_digits acc r = (acc, r)"
  by (cases r) (simp_all add: no_digit_def)

lemma parse_nat_show_nat:
  assumes "no_digit rest" "number_end rest"
  shows "parse_nat (show_nat n @ rest) = Some (n, rest)"
proof (cases "n = 0")
  case True
  then show ?thesis
    using assms by (simp add: show_nat.simps [of 0] parse_nat_def digit_char_0)
next
  case False
  then obtain d cs where s: "show_nat n = digit_char d # cs" and d: "0 < d" "d < 10"
    using show_nat_head [of n] by auto
  have "parse_digits 0 (show_nat n @ rest) = parse_digits n rest"
    using parse_digits_show_nat [of 0 n rest] by simp
  then have "parse_digits d (cs @ rest) = (n, rest)"
    using s d assms(1) by (simp add: is_digit_digit_char digit_val_digit_char parse_digits_no_digit)
  then show ?thesis
    using s d assms(2)
    by (simp add: parse_nat_def digit_char_neq_zero is_digit_digit_char digit_val_digit_char)
qed

lemma parse_number_show_int:
  assumes "no_digit rest" "number_end rest"
  shows "parse_number (show_int i @ rest) = Some (i, rest)"
proof (cases "i < 0")
  case True
  then show ?thesis
    using assms by (simp add: show_int_def parse_number_def parse_nat_show_nat)
next
  case False
  obtain c cs where s: "show_nat (nat i) = c # cs"
    using show_nat_nonempty by (cases "show_nat (nat i)") auto
  then have "is_digit c" by (rule show_nat_digit)
  then have "c \<noteq> CHR ''-''" by (auto simp: is_digit_def)
  moreover have "parse_nat (c # cs @ rest) = Some (nat i, rest)"
    using parse_nat_show_nat [OF assms, of "nat i"] s by simp
  ultimately show ?thesis
    using False s by (simp add: show_int_def parse_number_def)
qed

subsection \<open>Strings\<close>

lemma hex_val_hex_digit: "d < 16 \<Longrightarrow> hex_val (hex_digit d) = Some d"
  by (auto simp: hex_val_def hex_digit_def Let_def)

lemma hex_val_0: "hex_val (CHR ''0'') = Some 0"
  by (simp add: hex_val_def)

lemma hex4_control:
  "n < 32 \<Longrightarrow>
   hex4 [CHR ''0'', CHR ''0'', hex_digit (n div 16), hex_digit (n mod 16)] = Some n"
  by (simp add: hex_val_0 hex_val_hex_digit)

lemma utf8_encode_ascii: "(of_char c :: nat) < 128 \<Longrightarrow> utf8_encode (of_char c) = [c]"
  by (simp add: utf8_encode_def)

lemma parse_escape_char:
  "parse_string_body (escape_char c @ rest) = prepend [c] (parse_string_body rest)"
proof -
  consider (quote) "c = CHR 0x22" | (bs) "c = CHR 0x5C"
    | (b) "c = CHR 0x08" | (f) "c = CHR 0x0C" | (n) "c = CHR 0x0A" | (r) "c = CHR 0x0D"
    | (t) "c = CHR 0x09"
    | (ctl) "c \<notin> {CHR 0x22, CHR 0x5C, CHR 0x08, CHR 0x0C, CHR 0x0A, CHR 0x0D, CHR 0x09}"
        "(of_char c :: nat) < 32"
    | (plain) "c \<noteq> CHR 0x22" "c \<noteq> CHR 0x5C" "\<not> (of_char c :: nat) < 32"
    by (cases "(of_char c :: nat) < 32") auto
  then show ?thesis
  proof cases
    case ctl
    have "escape_char c = [CHR 0x5C, CHR ''u'', CHR ''0'', CHR ''0'',
        hex_digit (of_char c div 16), hex_digit (of_char c mod 16)]"
      using ctl by (simp add: escape_char_def)
    moreover have
      "hex4 [CHR ''0'', CHR ''0'', hex_digit (of_char c div 16), hex_digit (of_char c mod 16)]
        = Some (of_char c)"
      using ctl(2) by (rule hex4_control)
    moreover have "utf8_encode (of_char c) = [c]"
      using ctl(2) by (simp add: utf8_encode_ascii)
    ultimately show ?thesis
      using ctl(2) by simp
  next
    case plain
    then show ?thesis by (auto simp: escape_char_def)
  qed (simp_all add: escape_char_def simple_escape_def)
qed

lemma parse_string_body_escaped:
  "parse_string_body (concat (map escape_char s) @ CHR 0x22 # rest) = Some (s, rest)"
proof (induction s)
  case Nil
  show ?case by simp
next
  case (Cons c s)
  have "parse_string_body (concat (map escape_char (c # s)) @ CHR 0x22 # rest)
      = parse_string_body (escape_char c @ (concat (map escape_char s) @ CHR 0x22 # rest))"
    by simp
  also have "\<dots> = prepend [c] (Some (s, rest))"
    by (simp only: parse_escape_char Cons.IH)
  finally show ?case by (simp add: prepend_def)
qed

subsection \<open>Reading back what \<open>JSON_stringify\<close> wrote\<close>

text \<open>What can follow a value in a text that \<open>JSON_stringify\<close> writes, and how a value starts.\<close>

definition delimited :: "string \<Rightarrow> bool" where
  "delimited rest =
    (case rest of [] \<Rightarrow> True | c # _ \<Rightarrow> c = CHR '','' \<or> c = CHR '']'' \<or> c = CHR ''}'')"

definition value_start :: "char \<Rightarrow> bool" where
  "value_start c =
    (c = CHR ''n'' \<or> c = CHR ''t'' \<or> c = CHR ''f'' \<or> c = CHR 0x22 \<or> c = CHR ''[''
     \<or> c = CHR ''{'' \<or> c = CHR ''-'' \<or> is_digit c)"

lemma value_start_simps:
  "value_start c \<Longrightarrow> \<not> is_ws c" "value_start c \<Longrightarrow> c \<noteq> CHR '']''"
  "value_start c \<Longrightarrow> c \<noteq> CHR ''}''"
  by (auto simp: value_start_def is_ws_def is_digit_def)

lemma delimited_simps:
  "delimited rest \<Longrightarrow> no_digit rest" "delimited rest \<Longrightarrow> number_end rest"
  "delimited (CHR '','' # r)" "delimited (CHR '']'' # r)" "delimited (CHR ''}'' # r)"
  "delimited []"
  by (auto simp: delimited_def no_digit_def number_end_def is_digit_def split: list.splits)

lemma show_int_head: "\<exists>c cs. show_int i = c # cs \<and> (is_digit c \<or> c = CHR ''-'')"
proof (cases "i < 0")
  case True
  then show ?thesis by (simp add: show_int_def)
next
  case False
  obtain c cs where s: "show_nat (nat i) = c # cs"
    using show_nat_nonempty by (cases "show_nat (nat i)") auto
  then have "is_digit c" by (rule show_nat_digit)
  then show ?thesis using False s by (simp add: show_int_def)
qed

lemma JSON_stringify_head: "\<exists>c cs. JSON_stringify v = c # cs \<and> value_start c"
proof (cases v)
  case (JNum i)
  then show ?thesis using show_int_head [of i] by (auto simp: value_start_def)
qed (auto simp: value_start_def quote_def)

lemma JSON_stringify_nonempty: "JSON_stringify v \<noteq> []"
  using JSON_stringify_head [of v] by auto

lemma parse_value_number:
  assumes "is_digit c \<or> c = CHR ''-''"
  shows "parse_value (c # cs) =
    (case parse_number (c # cs) of None \<Rightarrow> None | Some (n, r) \<Rightarrow> Some (JNum n, r))"
proof -
  have "\<not> is_ws c" "c \<noteq> CHR ''n''" "c \<noteq> CHR ''t''" "c \<noteq> CHR ''f''" "c \<noteq> CHR 0x22"
    "c \<noteq> CHR ''[''" "c \<noteq> CHR ''{''"
    using assms by (auto simp: is_digit_def is_ws_def)
  then show ?thesis by simp
qed

lemma parse_value_JNum:
  assumes "delimited rest"
  shows "parse_value (show_int i @ rest) = Some (JNum i, rest)"
proof -
  obtain c cs where s: "show_int i = c # cs" and c: "is_digit c \<or> c = CHR ''-''"
    using show_int_head [of i] by blast
  have "parse_number (show_int i @ rest) = Some (i, rest)"
    using assms by (simp add: parse_number_show_int delimited_simps)
  then have "parse_number (c # cs @ rest) = Some (i, rest)"
    using s by simp
  then show ?thesis
    using s parse_value_number [OF c, of "cs @ rest"] by simp
qed

lemma parse_elements_stringified:
  assumes "vs \<noteq> []"
    and "\<And>v rest. v \<in> set vs \<Longrightarrow> delimited rest \<Longrightarrow>
            parse_value (JSON_stringify v @ rest) = Some (v, rest)"
  shows "parse_elements (commas (map JSON_stringify vs) @ CHR '']'' # rest) = Some (vs, rest)"
  using assms
proof (induction vs rule: list_nonempty_induct)
  case (single v)
  have "parse_value (JSON_stringify v @ CHR '']'' # rest) = Some (v, CHR '']'' # rest)"
    using single by (simp add: delimited_simps)
  then show ?case
    by (subst parse_elements.simps) (simp add: JSON_stringify_nonempty is_ws_def)
next
  case (cons v vs)
  obtain w ws where vs: "vs = w # ws" using cons.hyps by (cases vs) auto
  let ?tail = "commas (map JSON_stringify vs) @ CHR '']'' # rest"
  have "parse_value (JSON_stringify v @ CHR '','' # ?tail) = Some (v, CHR '','' # ?tail)"
    using cons.prems by (simp add: delimited_simps)
  moreover have "parse_elements ?tail = Some (vs, rest)"
    using cons.IH cons.prems by simp
  ultimately show ?case
    by (subst parse_elements.simps) (simp add: vs JSON_stringify_nonempty is_ws_def)
qed

lemma parse_member:
  assumes "parse_value (JSON_stringify v @ rest) = Some (v, rest)"
  shows "parse_members (member_text (k, v) @ rest) =
    (case skip_ws rest of
       [] \<Rightarrow> None
     | d # r4 \<Rightarrow>
         if d = CHR '','' then
           (case parse_members r4 of None \<Rightarrow> None | Some (ms, r5) \<Rightarrow> Some ((k, v) # ms, r5))
         else if d = CHR ''}'' then Some ([(k, v)], r4)
         else None)"
proof -
  have "member_text (k, v) @ rest
      = CHR 0x22 # concat (map escape_char k) @ CHR 0x22 # CHR '':'' # JSON_stringify v @ rest"
    by (simp add: member_text_def quote_def)
  then show ?thesis
    using assms
    by (subst parse_members.simps)
      (simp add: is_ws_def parse_string_body_escaped JSON_stringify_nonempty)
qed

lemma parse_members_stringified:
  assumes "ms \<noteq> []"
    and "\<And>k v rest. (k, v) \<in> set ms \<Longrightarrow> delimited rest \<Longrightarrow>
            parse_value (JSON_stringify v @ rest) = Some (v, rest)"
  shows "parse_members (commas (map member_text ms) @ CHR ''}'' # rest) = Some (ms, rest)"
  using assms
proof (induction ms rule: list_nonempty_induct)
  case (single m)
  obtain k v where m: "m = (k, v)" by (cases m)
  have "parse_value (JSON_stringify v @ CHR ''}'' # rest) = Some (v, CHR ''}'' # rest)"
    using single m by (simp add: delimited_simps)
  then show ?case
    by (simp add: m parse_member is_ws_def)
next
  case (cons m ms)
  obtain k v where m: "m = (k, v)" by (cases m)
  obtain w ws where ms: "ms = w # ws" using cons.hyps by (cases ms) auto
  let ?tail = "commas (map member_text ms) @ CHR ''}'' # rest"
  have "(k, v) \<in> set (m # ms)" using m by simp
  then have "parse_value (JSON_stringify v @ CHR '','' # ?tail) = Some (v, CHR '','' # ?tail)"
    by (rule cons.prems) (rule delimited_simps)
  moreover have "parse_members ?tail = Some (ms, rest)"
  proof (rule cons.IH)
    fix k' v' rest'
    assume "(k', v') \<in> set ms" "delimited rest'"
    then show "parse_value (JSON_stringify v' @ rest') = Some (v', rest')"
      using cons.prems [of k' v' rest'] by simp
  qed
  ultimately show ?case
    by (simp add: m ms parse_member is_ws_def)
qed

lemma foldl_upsert_distinct:
  "distinct (map fst (acc @ ms)) \<Longrightarrow> foldl upsert acc ms = acc @ ms"
proof (induction ms arbitrary: acc)
  case Nil
  show ?case by simp
next
  case (Cons m ms)
  have "fst m \<notin> fst ` set acc" using Cons.prems by auto
  then have "upsert acc m = acc @ [m]" by (simp add: upsert_def)
  then show ?case using Cons.IH [of "acc @ [m]"] Cons.prems by simp
qed

lemma commas_head:
  assumes "xs \<noteq> []" "\<And>x. x \<in> set xs \<Longrightarrow> \<exists>c cs. f x = c # cs \<and> P c"
  shows "\<exists>c cs. commas (map f xs) @ rest = c # cs \<and> P c"
proof -
  obtain x ys where xs: "xs = x # ys" using assms(1) by (cases xs) auto
  obtain c cs where "f x = c # cs" "P c" using assms(2) xs by force
  then show ?thesis using xs by (cases ys) auto
qed

lemma JSON_stringify_JObj:
  "JSON_stringify (JObj ms) = CHR ''{'' # commas (map member_text ms) @ ''}''"
proof -
  have "(\<lambda>(k, v). quote k @ CHR '':'' # JSON_stringify v) = member_text"
    by (auto simp: member_text_def fun_eq_iff)
  then show ?thesis by simp
qed

lemma parse_value_array:
  assumes "value_start c"
  shows "parse_value (CHR ''['' # c # cs) =
    (case parse_elements (c # cs) of None \<Rightarrow> None | Some (vs, r') \<Rightarrow> Some (JArr vs, r'))"
proof -
  have "\<not> is_ws (CHR ''['')" by (simp add: is_ws_def)
  moreover have "\<not> is_ws c" "c \<noteq> CHR '']''" using assms by (simp_all add: value_start_simps)
  ultimately show ?thesis by simp
qed

lemma parse_value_object:
  "parse_value (CHR ''{'' # CHR 0x22 # cs) =
    (case parse_members (CHR 0x22 # cs) of
       None \<Rightarrow> None
     | Some (ms, r') \<Rightarrow> Some (JObj (foldl upsert [] ms), r'))"
proof -
  have "\<not> is_ws (CHR ''{'')" "\<not> is_ws (CHR 0x22)" by (simp_all add: is_ws_def)
  then show ?thesis by simp
qed

lemma parse_value_stringify:
  "wf_json v \<Longrightarrow> delimited rest \<Longrightarrow> parse_value (JSON_stringify v @ rest) = Some (v, rest)"
proof (induction v arbitrary: rest)
  case JNull
  show ?case by (simp add: is_ws_def literal_def)
next
  case (JBool b)
  show ?case by (simp add: is_ws_def literal_def)
next
  case (JNum i)
  then show ?case by (simp add: parse_value_JNum)
next
  case (JStr s)
  show ?case by (simp add: quote_def is_ws_def parse_string_body_escaped)
next
  case (JArr vs)
  show ?case
  proof (cases "vs = []")
    case True
    then show ?thesis by (simp add: is_ws_def)
  next
    case False
    have ih: "\<And>v rest. v \<in> set vs \<Longrightarrow> delimited rest \<Longrightarrow>
        parse_value (JSON_stringify v @ rest) = Some (v, rest)"
      using JArr.IH JArr.prems(1) by (simp add: list_all_iff)
    obtain c cs where head: "commas (map JSON_stringify vs) @ CHR '']'' # rest = c # cs"
      and c: "value_start c"
      using commas_head [OF False, of JSON_stringify value_start] JSON_stringify_head by blast
    have "parse_elements (c # cs) = Some (vs, rest)"
      using parse_elements_stringified [OF False ih, where rest = rest] by (simp only: head)
    moreover have "JSON_stringify (JArr vs) @ rest = CHR ''['' # c # cs"
      using head by simp
    ultimately show ?thesis
      using c by (simp only: parse_value_array option.case prod.case)
  qed
next
  case (JObj ms)
  show ?case
  proof (cases "ms = []")
    case True
    then show ?thesis by (simp add: is_ws_def)
  next
    case False
    have ih: "\<And>k v rest. (k, v) \<in> set ms \<Longrightarrow> delimited rest \<Longrightarrow>
        parse_value (JSON_stringify v @ rest) = Some (v, rest)"
    proof -
      fix k v rest assume kv: "(k, v) \<in> set ms" and d: "delimited rest"
      have "wf_json v" using JObj.prems(1) kv by (auto simp: list_all_iff)
      then show "parse_value (JSON_stringify v @ rest) = Some (v, rest)"
        using JObj.IH [of "(k, v)" v] kv d by simp
    qed
    have "\<And>m. m \<in> set ms \<Longrightarrow> \<exists>c cs. member_text m = c # cs \<and> c = CHR 0x22"
      by (simp add: member_text_def quote_def)
    then obtain c cs where head: "commas (map member_text ms) @ CHR ''}'' # rest = c # cs"
      and c: "c = CHR 0x22"
      using commas_head [OF False, of member_text "\<lambda>c. c = CHR 0x22"] by blast
    have "parse_members (c # cs) = Some (ms, rest)"
      using parse_members_stringified [OF False ih, where rest = rest] by (simp only: head)
    moreover have "foldl upsert [] ms = ms"
      using foldl_upsert_distinct [of "[]" ms] JObj.prems(1) by simp
    moreover have "JSON_stringify (JObj ms) @ rest = CHR ''{'' # CHR 0x22 # cs"
      using head c by (simp add: JSON_stringify_JObj del: JSON_stringify.simps)
    ultimately show ?thesis
      using c by (simp only: parse_value_object option.case prod.case)
  qed
qed

text \<open>\<^verbatim>\<open>JSON.parse(JSON.stringify(v))\<close> is \<open>v\<close>, for every value of the model.\<close>

lemma JSON_parse_stringify: "wf_json v \<Longrightarrow> JSON_parse (JSON_stringify v) = Some v"
  using parse_value_stringify [of v "[]"] by (simp add: JSON_parse_def delimited_simps)

lemma JSON_parse_empty: "JSON_parse [] = None"
  by (simp add: JSON_parse_def)

subsection \<open>The reader consumes what it reads\<close>

lemma parse_digits_length: "parse_digits acc cs = (n, r) \<Longrightarrow> length r \<le> length cs"
  by (induction acc cs rule: parse_digits.induct) (auto split: if_splits)

lemma parse_nat_length: "parse_nat cs = Some (n, r) \<Longrightarrow> length r < length cs"
  by (auto simp: parse_nat_def split: list.splits if_splits prod.splits dest!: parse_digits_length)

lemma parse_number_length: "parse_number cs = Some (n, r) \<Longrightarrow> length r < length cs"
  by (auto simp: parse_number_def split: list.splits if_splits dest!: parse_nat_length)

lemma literal_length: "literal w x cs = Some (v, r) \<Longrightarrow> length r \<le> length cs"
  by (auto simp: literal_def split: if_splits)

lemma skip_ws_Cons_length: "skip_ws cs = d # r \<Longrightarrow> length r < length cs"
  using skip_ws_length [of cs] by simp

lemma parse_consumes:
  "parse_value cs = Some (v, r) \<Longrightarrow> length r < length cs"
  "parse_elements cs = Some (vs, r) \<Longrightarrow> length r < length cs"
  "parse_members cs = Some (ms, r) \<Longrightarrow> length r < length cs"
proof (induction cs and cs and cs arbitrary: v r and vs r and ms r
    rule: parse_value_parse_elements_parse_members.induct)
  case 1
  then show ?case by simp
next
  case (2 c cs)
  show ?case
  proof (cases "is_ws c")
    case True
    then show ?thesis using "2.prems" "2.IH"(1) by fastforce
  next
    case ws: False
    consider (lit) "c = CHR ''n'' \<or> c = CHR ''t'' \<or> c = CHR ''f''"
      | (str) "c = CHR 0x22" | (arr) "c = CHR ''[''" | (obj) "c = CHR ''{''"
      | (num) "c \<noteq> CHR ''n''" "c \<noteq> CHR ''t''" "c \<noteq> CHR ''f''" "c \<noteq> CHR 0x22"
          "c \<noteq> CHR ''[''" "c \<noteq> CHR ''{''"
      by blast
    then show ?thesis
    proof cases
      case lit
      then show ?thesis
        using ws "2.prems" by (auto dest!: literal_length)
    next
      case str
      then show ?thesis
        using ws "2.prems" by (auto split: option.splits dest!: parse_string_body_length)
    next
      case arr
      show ?thesis
      proof (cases "skip_ws cs")
        case Nil
        then show ?thesis using ws arr "2.prems" by simp
      next
        case (Cons d r0)
        note len = skip_ws_Cons_length [OF Cons]
        show ?thesis
        proof (cases "d = CHR '']''")
          case True
          then show ?thesis using ws arr "2.prems" Cons len by auto
        next
          case False
          then obtain vs where "parse_elements (d # r0) = Some (vs, r)"
            using ws arr "2.prems" Cons by (auto split: option.splits)
          then have "length r < length (d # r0)"
            using "2.IH"(2) ws arr Cons False by simp
          then show ?thesis using len by simp
        qed
      qed
    next
      case obj
      show ?thesis
      proof (cases "skip_ws cs")
        case Nil
        then show ?thesis using ws obj "2.prems" by simp
      next
        case (Cons d r0)
        note len = skip_ws_Cons_length [OF Cons]
        show ?thesis
        proof (cases "d = CHR ''}''")
          case True
          then show ?thesis using ws obj "2.prems" Cons len by auto
        next
          case False
          then obtain ms where "parse_members (d # r0) = Some (ms, r)"
            using ws obj "2.prems" Cons by (auto split: option.splits)
          then have "length r < length (d # r0)"
            using "2.IH"(3) ws obj Cons False by simp
          then show ?thesis using len by simp
        qed
      qed
    next
      case num
      then have "\<exists>n. parse_number (c # cs) = Some (n, r)"
        using ws "2.prems" by (auto split: option.splits)
      then show ?thesis by (auto dest!: parse_number_length)
    qed
  qed
next
  case (3 cs)
  from "3.prems" obtain v0 r0 where pv: "parse_value cs = Some (v0, r0)"
    and g: "length r0 < length cs"
    by (subst (asm) parse_elements.simps) (auto split: option.splits if_splits)
  from "3.prems" pv g obtain d r1 where sk: "skip_ws r0 = d # r1"
    by (subst (asm) parse_elements.simps) (auto split: list.splits)
  note len = skip_ws_Cons_length [OF sk]
  show ?case
  proof (cases "d = CHR '',''")
    case True
    then obtain vs' where "parse_elements r1 = Some (vs', r)"
      using "3.prems" pv g sk
      by (subst (asm) parse_elements.simps) (auto split: option.splits)
    then have "length r < length r1"
      using "3.IH"(2) [OF pv refl g sk True] by simp
    then show ?thesis using len g by simp
  next
    case False
    then have "r = r1"
      using "3.prems" pv g sk
      by (subst (asm) parse_elements.simps) (auto split: if_splits)
    then show ?thesis using len g by simp
  qed
next
  case (4 cs)
  from "4.prems" obtain q r0 where s0: "skip_ws cs = q # r0" and q: "q = CHR 0x22"
    by (subst (asm) parse_members.simps) (auto split: list.splits if_splits)
  from "4.prems" s0 q obtain k r1 where ps: "parse_string_body r0 = Some (k, r1)"
    by (subst (asm) parse_members.simps) (auto split: option.splits)
  from "4.prems" s0 q ps obtain c r2 where s1: "skip_ws r1 = c # r2" and c: "c = CHR '':''"
    by (subst (asm) parse_members.simps) (auto split: list.splits if_splits)
  from "4.prems" s0 q ps s1 c obtain v0 r3 where pv: "parse_value r2 = Some (v0, r3)"
    and g: "length r3 < length r2"
    by (subst (asm) parse_members.simps) (auto split: option.splits if_splits)
  from "4.prems" s0 q ps s1 c pv g obtain d r4 where s3: "skip_ws r3 = d # r4"
    by (subst (asm) parse_members.simps) (auto split: list.splits)
  have len: "length r4 < length cs"
    using skip_ws_Cons_length [OF s0] skip_ws_Cons_length [OF s1] skip_ws_Cons_length [OF s3]
      parse_string_body_length [OF ps] g by simp
  show ?case
  proof (cases "d = CHR '',''")
    case True
    then obtain ms' where "parse_members r4 = Some (ms', r)"
      using "4.prems" s0 q ps s1 c pv g s3
      by (subst (asm) parse_members.simps) (auto split: option.splits)
    then have "length r < length r4"
      using "4.IH"(2) [OF s0 q ps refl s1 c pv refl g s3 True] by simp
    then show ?thesis using len by simp
  next
    case False
    then have "r = r4"
      using "4.prems" s0 q ps s1 c pv g s3
      by (subst (asm) parse_members.simps) (auto split: if_splits)
    then show ?thesis using len by simp
  qed
qed

subsection \<open>What the reader returns is an object of the platform\<close>

lemma upsert_keys: "fst ` set (upsert ms kv) = insert (fst kv) (fst ` set ms)"
  by (force simp: upsert_def image_iff split: if_splits)






section \<open>Properties of the wire format\<close>

lemma le32_length: "length (le32 v) = 4"
  by (simp add: le32_def)

lemma le32_value:
  assumes "v < 4294967296"
  shows "(of_char (char_of v) :: nat) + 0x100 * of_char (char_of (v div 0x100))
     + 0x10000 * of_char (char_of (v div 0x10000))
     + 0x1000000 * of_char (char_of (v div 0x1000000)) = v"
proof -
  define a where "a = v div 256"
  define b where "b = a div 256"
  define c where "c = b div 256"
  have c: "c mod 256 = c"
    using assms by (simp add: a_def b_def c_def div_mult2_eq)
  have "v div 0x10000 = b" "v div 0x1000000 = c"
    by (simp_all add: a_def b_def c_def div_mult2_eq)
  then have "(of_char (char_of v) :: nat) + 0x100 * of_char (char_of (v div 0x100))
     + 0x10000 * of_char (char_of (v div 0x10000))
     + 0x1000000 * of_char (char_of (v div 0x1000000))
     = v mod 256 + 256 * (a mod 256 + 256 * (b mod 256 + 256 * c))"
    using c by (simp add: of_char_of a_def [symmetric])
  also have "b mod 256 + 256 * c = b"
    unfolding c_def by (rule mod_mult_div_eq)
  also have "a mod 256 + 256 * b = a"
    unfolding b_def by (rule mod_mult_div_eq)
  also have "v mod 256 + 256 * a = v"
    unfolding a_def by (rule mod_mult_div_eq)
  finally show ?thesis .
qed

lemma readUInt32LE_0: "v < 4294967296 \<Longrightarrow> readUInt32LE (le32 v @ rest) 0 = Inr v"
  using le32_value [of v] by (simp add: readUInt32LE_def le32_def)

lemma readUInt32LE_4:
  "v < 4294967296 \<Longrightarrow> readUInt32LE (le32 u @ le32 v @ rest) 4 = Inr v"
  using le32_value [of v] by (simp add: readUInt32LE_def le32_def)

lemma decode_packet:
  assumes "code < 4294967296" "length body < 4294967296"
  shows "decode (le32 code @ le32 (length body) @ body) =
    (case JSON_parse body of None \<Rightarrow> Inr Malformed | Some v \<Rightarrow> Inr (Packet code v))"
  using assms by (simp add: decode_def readUInt32LE_0 readUInt32LE_4 le32_length)

lemma encode_packet:
  assumes "length (dataBuffer payload) < 4294967296"
  shows "encode operation payload =
    Inr (le32 (op_code operation) @ le32 (length (dataBuffer payload)) @ dataBuffer payload)"
proof -
  have "op_code operation < 4294967296" by (cases operation) simp_all
  then show ?thesis using assms by (simp add: encode_def writeUInt32LE_def)
qed

section \<open>Properties of the transport\<close>

lemma drain_chunks:
  "socket s = Some k \<Longrightarrow> readyState k = Open \<Longrightarrow> unread k = chunks \<Longrightarrow>
   drain data s =
     (data @ concat chunks,
      s\<lparr>socket := Some (k\<lparr>unread := []\<rparr>),
        client_emitted := client_emitted s @ map chunk_report chunks\<rparr>)"
proof (induction chunks arbitrary: s k data)
  case Nil
  then have "k\<lparr>unread := []\<rparr> = k" by simp
  with Nil show ?case
    by (subst drain.simps) (simp add: isConnected_def)
next
  case (Cons chunk rest)
  let ?k = "k\<lparr>unread := rest\<rparr>"
  let ?s = "debug (''SERVER => CLIENT | '' @ hex_dump chunk) [] (s\<lparr>socket := Some ?k\<rparr>)"
  have "drain data s = drain (data @ chunk) ?s"
    using Cons.prems by (subst drain.simps) (simp add: isConnected_def)
  also have "\<dots> = (data @ chunk @ concat rest,
      ?s\<lparr>socket := Some (?k\<lparr>unread := []\<rparr>),
         client_emitted := client_emitted ?s @ map chunk_report rest\<rparr>)"
    using Cons.IH [of ?s ?k "data @ chunk"] Cons.prems
    by (simp add: debug_def client_emit_def)
  finally show ?case
    by (simp add: debug_def client_emit_def chunk_report_def)
qed

lemma drain_connected: "isConnected s \<Longrightarrow> drain data s = (data @ received s, drained s)"
  by (auto simp: isConnected_def received_def drained_def drain_chunks split: option.splits)

lemma drain_disconnected: "\<not> isConnected s \<Longrightarrow> drain data s = (data, s)"
  by (subst drain.simps) simp

lemma drained_simps:
  "emitted (drained s) = emitted s" "written (drained s) = written s"
  "listeners (drained s) = listeners s" "clientId (drained s) = clientId s"
  "socket (drained s) = map_option (\<lambda>k. k\<lparr>unread := []\<rparr>) (socket s)"
  by (simp_all add: drained_def split: option.splits)

lemma readable_connected:
  "isConnected s \<Longrightarrow>
   readable s =
    (case decode (received s) of
       Inl e \<Rightarrow> Inl e
     | Inr NoData \<Rightarrow> Inr (drained s)
     | Inr Malformed \<Rightarrow> Inr (debug malformed_packet [] (drained s))
     | Inr (Packet op parsedData) \<Rightarrow>
         dispatch op parsedData
           (debug (''SERVER => CLIENT | OPCODE.'' @ op_name op @ '' |'') [Some parsedData]
             (drained s)))"
  by (simp add: readable_def drain_connected)

lemma debug_simps:
  "emitted (debug t r s) = emitted s" "written (debug t r s) = written s"
  "listeners (debug t r s) = listeners s" "socket (debug t r s) = socket s"
  "clientId (debug t r s) = clientId s"
  "client_emitted (debug t r s) = client_emitted s @ [(Some (JStr ''debug''), Some (JStr t) # r)]"
  by (simp_all add: debug_def client_emit_def)

lemma call_all_close:
  "call_all (replicate n Transport_close) args s =
    Inr (s\<lparr>socket := (if n = 0 then socket s else None),
           client_emitted := client_emitted s @ replicate n (Some (JStr ''close''), [arg0 args])\<rparr>)"
proof (induction n arbitrary: s)
  case 0
  show ?case by simp
next
  case (Suc n)
  show ?case
    by (simp add: Suc.IH client_emit_def replicate_append_same)
qed


lemma emit_close:
  "listeners s ''close'' = Some (replicate n Transport_close) \<Longrightarrow>
   emit ''close'' args s =
    Inr (s\<lparr>emitted := emitted s @ [(''close'', args)],
           socket := (if n = 0 then socket s else None),
           client_emitted := client_emitted s @ replicate n (Some (JStr ''close''), [arg0 args])\<rparr>)"
  by (simp add: emit_def call_all_close)

lemma send_fits:
  "length (dataBuffer payload) < 4294967296 \<Longrightarrow>
   send operation payload s =
    Inr (socket_write
          (le32 (op_code operation) @ le32 (length (dataBuffer payload)) @ dataBuffer payload)
          (debug (''CLIENT => SERVER | OPCODE.'' @ op_name (op_code operation) @ '' |'') [payload] s))"
  by (simp add: send_def encode_packet)

lemma list4: "length xs = 4 \<Longrightarrow> \<exists>a b c d. xs = [a, b, c, d]"
  by (auto simp: numeral_eq_Suc length_Suc_conv)

lemma readUInt32LE_in_range:
  assumes "off + 4 \<le> length data"
  shows "\<exists>v. readUInt32LE data off = Inr v"
proof -
  have "length (take 4 (drop off data)) = 4" using assms by simp
  then obtain a b c d where "take 4 (drop off data) = [a, b, c, d]"
    using list4 by blast
  then show ?thesis by (simp add: readUInt32LE_def)
qed

lemma decode_total: "decode data \<noteq> Inl e"
proof (cases "length data < 8")
  case True
  then show ?thesis by (simp add: decode_def)
next
  case False
  then obtain code len where "readUInt32LE data 0 = Inr code" "readUInt32LE data 4 = Inr len"
    using readUInt32LE_in_range [of 0 data] readUInt32LE_in_range [of 4 data] by auto
  then show ?thesis
    using False by (simp add: decode_def split: option.splits)
qed

lemmas eval_text =
  quote_def escape_char_def show_int_def show_nat.simps digit_char_def

lemmas eval_activity =
  Activity_json_def timestamps_json_def assets_json_def button_json_def field_def

lemma digit_chars:
  "digit_char 0 = CHR ''0''" "digit_char 1 = CHR ''1''" "digit_char 2 = CHR ''2''"
  "digit_char 3 = CHR ''3''" "digit_char 4 = CHR ''4''" "digit_char 5 = CHR ''5''"
  "digit_char 6 = CHR ''6''" "digit_char 7 = CHR ''7''" "digit_char 8 = CHR ''8''"
  "digit_char 9 = CHR ''9''" "digit_char (Suc 0) = CHR ''1''"
  by code_simp+

subsection \<open>Decoding\<close>

lemma take4_nth:
  assumes "off + 4 \<le> length data"
  shows "take 4 (drop off data) = [data ! off, data ! (off + 1), data ! (off + 2), data ! (off + 3)]"
proof (rule nth_equalityI)
  show "length (take 4 (drop off data))
      = length [data ! off, data ! (off + 1), data ! (off + 2), data ! (off + 3)]"
    using assms by simp
next
  fix i assume "i < length (take 4 (drop off data))"
  then have "i < 4" by simp
  then consider "i = 0" | "i = 1" | "i = 2" | "i = 3" by linarith
  then show "take 4 (drop off data) ! i
      = [data ! off, data ! (off + 1), data ! (off + 2), data ! (off + 3)] ! i"
    using assms by cases (simp_all add: numeral_2_eq_2 numeral_3_eq_3)
qed

lemma readUInt32LE_4_declared:
  "8 \<le> length data \<Longrightarrow> readUInt32LE data 4 = Inr (declared_length data)"
  using take4_nth [of 4 data] by (simp add: readUInt32LE_def declared_length_def)

lemma decode_header:
  assumes "8 \<le> length data"
  shows "\<exists>code. decode data =
    (if length data \<noteq> declared_length data + 8 then Inr Malformed
     else case JSON_parse (drop 8 data) of
            None \<Rightarrow> Inr Malformed
          | Some parsedData \<Rightarrow> Inr (Packet code parsedData))"
proof -
  obtain code where "readUInt32LE data 0 = Inr code"
    using readUInt32LE_in_range [of 0 data] assms by auto
  then have "decode data =
    (if length data \<noteq> declared_length data + 8 then Inr Malformed
     else case JSON_parse (drop 8 data) of
            None \<Rightarrow> Inr Malformed
          | Some parsedData \<Rightarrow> Inr (Packet code parsedData))"
    using assms by (auto simp: decode_def readUInt32LE_4_declared)
  then show ?thesis ..
qed

lemma decode_Malformed_iff: "decode data = Inr Malformed \<longleftrightarrow> malformed_frame data"
proof (cases "length data < 8")
  case True
  then show ?thesis by (auto simp: decode_def malformed_frame_def)
next
  case False
  then obtain code where "decode data =
    (if length data \<noteq> declared_length data + 8 then Inr Malformed
     else case JSON_parse (drop 8 data) of
            None \<Rightarrow> Inr Malformed
          | Some parsedData \<Rightarrow> Inr (Packet code parsedData))"
    using decode_header [of data] by auto
  then show ?thesis
    using False by (auto simp: malformed_frame_def split: option.splits)
qed


lemma declared_length_append:
  "8 \<le> length frame \<Longrightarrow> declared_length (frame @ trailing) = declared_length frame"
  by (simp add: declared_length_def nth_append)

subsection \<open>Writing\<close>

lemma socket_write_simps:
  "socket s = Some k \<Longrightarrow> written (socket_write b s) = written s @ [b]"
  "emitted (socket_write b s) = emitted s" "listeners (socket_write b s) = listeners s"
  "socket (socket_write b s) = socket s"
  "client_emitted (socket_write b s) = client_emitted s"
  by (simp_all add: socket_write_def split: option.splits)

subsection \<open>Socket discovery\<close>

text \<open>When the runtime directory resolves (always, on a platform that never asks for it),
  \<^verbatim>\<open>getSocket\<close> is the discovery of the specification; when it does not resolve on macOS or
  Linux, the error of \<^verbatim>\<open>fs.realpathSync\<close> leaves \<^verbatim>\<open>getSocket\<close> at the first index of the second
  rule.\<close>

lemma try_ids_skip: "platform h \<notin> set (platforms pat) \<Longrightarrow> try_ids h pat ids = Inr None"
  by (induction ids) (simp_all add: handleSocketId_def)

lemma handleSocketId_reachable:
  "platform h \<in> set (platforms pat) \<Longrightarrow> format pat h i = Inr p \<Longrightarrow>
   handleSocketId h pat i = Inr (if reachable h p then Some (socket_at p) else None)"
  by (auto simp: handleSocketId_def reachable_def createSocket_def socket_at_def)

lemma try_ids_find:
  assumes "platform h \<in> set (platforms pat)"
    and "\<And>i. i \<in> set ids \<Longrightarrow> format pat h i = Inr (f i)"
  shows "try_ids h pat ids = Inr (map_option socket_at (find (reachable h) (map f ids)))"
  using assms(2)
proof (induction ids)
  case Nil
  show ?case by simp
next
  case (Cons i ids)
  have "handleSocketId h pat i = Inr (if reachable h (f i) then Some (socket_at (f i)) else None)"
    using assms(1) Cons.prems by (simp add: handleSocketId_reachable)
  then show ?case using Cons by simp
qed

lemma try_ids_error:
  "platform h \<in> set (platforms pat) \<Longrightarrow> format pat h i = Inl e \<Longrightarrow>
   try_ids h pat (i # ids) = Inl e"
  by (simp add: handleSocketId_def)

lemma find_append:
  "find P (xs @ ys) = (case find P xs of None \<Rightarrow> find P ys | Some x \<Rightarrow> Some x)"
  by (induction xs) simp_all

lemma under_prefix_resolved:
  "prefix h = Inr p \<Longrightarrow> under_prefix dirs h i = Inr (path_join p (dirs @ [ipc_name i]))"
  by (simp add: under_prefix_def ipc_name_def)

lemma under_prefix_unresolved: "prefix h = Inl e \<Longrightarrow> under_prefix dirs h i = Inl e"
  by (simp add: under_prefix_def)

lemma upt_10: "[0..<10] = 0 # [1..<10]"
  by (simp add: upt_rec)

lemma getSocket_locate:
  assumes "socket s = None"
    and "platform h = ''darwin'' \<or> platform h = ''linux'' \<Longrightarrow> prefix h = Inr p"
  shows "getSocket h s = locate h p"
proof -
  let ?pipe = "\<lparr>platforms = [''win32''],
      format = (\<lambda>h ident. Inr ([CHR 0x5C, CHR 0x5C, CHR ''?'', CHR 0x5C] @ ''pipe'' @ [CHR 0x5C]
                          @ ''discord-ipc-'' @ show_nat ident))\<rparr>"
  let ?unix = "\<lparr>platforms = [''darwin'', ''linux''], format = under_prefix []\<rparr>"
  let ?snap = "\<lparr>platforms = [''linux''], format = under_prefix [''snap.discord'']\<rparr>"
  let ?flat = "\<lparr>platforms = [''linux''], format = under_prefix [''app'', ''com.discordapp.Discord'']\<rparr>"
  consider (win) "platform h = ''win32''" | (mac) "platform h = ''darwin''"
    | (linux) "platform h = ''linux''"
    | (other) "platform h \<noteq> ''win32''" "platform h \<noteq> ''darwin''" "platform h \<noteq> ''linux''"
    by blast
  then show ?thesis
  proof cases
    case win
    have "try_ids h ?pipe [0..<10] = Inr (map_option socket_at (find (reachable h) (map named_pipe [0..<10])))"
      by (rule try_ids_find) (simp_all add: win named_pipe_def ipc_name_def)
    moreover have "try_ids h ?unix [0..<10] = Inr None" "try_ids h ?snap [0..<10] = Inr None"
      "try_ids h ?flat [0..<10] = Inr None"
      by (rule try_ids_skip, simp add: win)+
    ultimately show ?thesis
      using assms(1) win
      by (simp add: getSocket_def pathList_def locate_def candidates_def split: option.splits)
  next
    case mac
    then have p: "prefix h = Inr p" using assms(2) by simp
    have "try_ids h ?unix [0..<10]
        = Inr (map_option socket_at (find (reachable h) (map (\<lambda>i. path_join p [ipc_name i]) [0..<10])))"
      by (rule try_ids_find) (simp_all add: mac under_prefix_resolved [OF p])
    moreover have "try_ids h ?pipe [0..<10] = Inr None" "try_ids h ?snap [0..<10] = Inr None"
      "try_ids h ?flat [0..<10] = Inr None"
      by (rule try_ids_skip, simp add: mac)+
    ultimately show ?thesis
      using assms(1) mac
      by (simp add: getSocket_def pathList_def locate_def candidates_def
          del: path_join.simps split: option.splits)
  next
    case linux
    then have p: "prefix h = Inr p" using assms(2) by simp
    have "try_ids h ?unix [0..<10]
        = Inr (map_option socket_at (find (reachable h) (map (\<lambda>i. path_join p [ipc_name i]) [0..<10])))"
      by (rule try_ids_find) (simp_all add: linux under_prefix_resolved [OF p])
    moreover have "try_ids h ?snap [0..<10]
        = Inr (map_option socket_at (find (reachable h)
            (map (\<lambda>i. path_join p [''snap.discord'', ipc_name i]) [0..<10])))"
      by (rule try_ids_find) (simp_all add: linux under_prefix_resolved [OF p])
    moreover have "try_ids h ?flat [0..<10]
        = Inr (map_option socket_at (find (reachable h)
            (map (\<lambda>i. path_join p [''app'', ''com.discordapp.Discord'', ipc_name i]) [0..<10])))"
      by (rule try_ids_find) (simp_all add: linux under_prefix_resolved [OF p])
    moreover have "try_ids h ?pipe [0..<10] = Inr None"
      by (rule try_ids_skip) (simp add: linux)
    ultimately show ?thesis
      using assms(1) linux
      by (simp add: getSocket_def pathList_def locate_def candidates_def find_append
          del: path_join.simps split: option.splits)
  next
    case other
    have "try_ids h ?pipe [0..<10] = Inr None" "try_ids h ?unix [0..<10] = Inr None"
      "try_ids h ?snap [0..<10] = Inr None" "try_ids h ?flat [0..<10] = Inr None"
      by (rule try_ids_skip, simp add: other)+
    then show ?thesis
      using assms(1) other
      by (simp add: getSocket_def pathList_def locate_def candidates_def)
  qed
qed

lemma getSocket_unresolved:
  assumes "socket s = None" and "platform h = ''darwin'' \<or> platform h = ''linux''"
    and "prefix h = Inl e"
  shows "getSocket h s = Inl e"
proof -
  let ?pipe = "\<lparr>platforms = [''win32''],
      format = (\<lambda>h ident. Inr ([CHR 0x5C, CHR 0x5C, CHR ''?'', CHR 0x5C] @ ''pipe'' @ [CHR 0x5C]
                          @ ''discord-ipc-'' @ show_nat ident))\<rparr>"
  let ?unix = "\<lparr>platforms = [''darwin'', ''linux''], format = under_prefix []\<rparr>"
  have "try_ids h ?pipe [0..<10] = Inr None"
    by (rule try_ids_skip) (use assms(2) in auto)
  moreover have "try_ids h ?unix [0..<10] = Inl e"
    unfolding upt_10
    by (rule try_ids_error) (use assms(2,3) in \<open>auto simp: under_prefix_unresolved\<close>)
  ultimately show ?thesis
    using assms(1) by (simp add: getSocket_def pathList_def)
qed

subsection \<open>The activity as a JSON value\<close>

lemma wf_timestamps_json: "wf_json (timestamps_json t)"
  by (simp add: timestamps_json_def field_def split: option.splits)

lemma wf_assets_json: "wf_json (assets_json a)"
  by (simp add: assets_json_def field_def split: option.splits)

lemma wf_buttons_json: "wf_json (JArr (map button_json bs))"
  by (simp add: button_json_def list_all_iff)

lemma wf_Activity_json: "wf_json (Activity_json a)"
  using wf_timestamps_json wf_assets_json wf_buttons_json
  by (simp add: Activity_json_def field_def split: option.splits del: wf_json.simps(1))

subsection \<open>The concrete runs\<close>

text \<open>On \<open>linux_host\<close> a new client connects to \<^verbatim>\<open>discord-ipc-1\<close> in the runtime directory, and
  \<open>connected_client\<close> is the state \<^verbatim>\<open>connect\<close> leaves, with empty traces.\<close>

lemma ipc_names:
  "ipc_name 0 = ''discord-ipc-0''" "ipc_name 1 = ''discord-ipc-1''"
  "ipc_name (Suc 0) = ''discord-ipc-1''"
  by (simp_all add: ipc_name_def show_nat.simps digit_chars)

lemma locate_linux_host:
  "locate linux_host ''/run/user/1000'' = Inr (socket_at ''/run/user/1000/discord-ipc-1'')"
proof -
  have "[0..<10] = 0 # 1 # [2..<10]"
    by (simp add: upt_rec)
  then have "candidates linux_host ''/run/user/1000'' =
      ''/run/user/1000/discord-ipc-0'' # ''/run/user/1000/discord-ipc-1''
        # map (\<lambda>i. path_join ''/run/user/1000'' [ipc_name i]) [2..<10]
        @ map (\<lambda>i. path_join ''/run/user/1000'' [''snap.discord'', ipc_name i]) (0 # 1 # [2..<10])
        @ map (\<lambda>i. path_join ''/run/user/1000'' [''app'', ''com.discordapp.Discord'', ipc_name i])
            (0 # 1 # [2..<10])"
    by (simp add: candidates_def linux_host_def ipc_names)
  moreover have "\<not> reachable linux_host ''/run/user/1000/discord-ipc-0''"
    "reachable linux_host ''/run/user/1000/discord-ipc-1''"
    by (simp_all add: reachable_def linux_host_def path_dirname_def)
  ultimately show ?thesis
    by (simp add: locate_def)
qed

lemma connect_linux_host:
  "connect linux_host (Client ''123'') =
    Inr (connected_client
          \<lparr>emitted := [(''open'', [])],
           client_emitted :=
             [(Some (JStr ''debug''),
               [Some (JStr ''CLIENT => SERVER | OPCODE.HANDSHAKE |''), Some (handshake ''123'')])],
           written := [le32 0 @ le32 (length (JSON_stringify (handshake ''123'')))
                       @ JSON_stringify (handshake ''123'')]\<rparr>)"
proof -
  have "socket (Client ''123'') = None" by (simp add: Client_def)
  moreover have "prefix linux_host = Inr ''/run/user/1000''"
    by (simp add: prefix_def linux_host_def)
  ultimately have "getSocket linux_host (Client ''123'') = Inr (socket_at ''/run/user/1000/discord-ipc-1'')"
    using getSocket_locate [of "Client ''123''" linux_host "''/run/user/1000''"]
    by (simp add: locate_linux_host)
  moreover have "length (dataBuffer (Some (handshake ''123''))) < 4294967296"
    by (simp add: dataBuffer_def handshake_def eval_text)
  moreover have "dataBuffer (Some (handshake ''123'')) = JSON_stringify (handshake ''123'')"
    by (simp add: dataBuffer_def handshake_def)
  ultimately show ?thesis
    by (simp add: connect_def Client_def emit_def send_fits [of "Some (handshake ''123'')"]
        handshake_def [symmetric] socket_write_def debug_def client_emit_def on_readable_def
        on_def socket_at_def connected_client_def open_socket_def op_name_def
        del: JSON_stringify.simps)
qed

lemma arrive_connected_client:
  "isConnected (arrive chunks connected_client)"
  "received (arrive chunks connected_client) = concat chunks"
  "emitted (arrive chunks connected_client) = []"
  "written (arrive chunks connected_client) = []"
  "listeners (arrive chunks connected_client) ''ping'' = None"
  "listeners (arrive chunks connected_client) ''close'' = Some [Transport_close]"
  "client_emitted (drained (arrive chunks connected_client)) = map chunk_report chunks"
  by (simp_all add: arrive_def connected_client_def open_socket_def isConnected_def received_def
      drained_def)

lemma empty_object_frame_facts:
  "length empty_object_frame = 10" "declared_length empty_object_frame = 2"
  "decode empty_object_frame = Inr (Packet 1 (JObj []))"
proof -
  show "length empty_object_frame = 10"
    by (simp add: empty_object_frame_def le32_length)
  show "declared_length empty_object_frame = 2"
    by (simp add: empty_object_frame_def declared_length_def le32_def of_char_of)
  have "JSON_parse ''{}'' = Some (JObj [])"
    using JSON_parse_stringify [of "JObj []"] by simp
  then show "decode empty_object_frame = Inr (Packet 1 (JObj []))"
    using decode_packet [of 1 "''{}''"] by (simp add: empty_object_frame_def numeral_2_eq_2)
qed



lemma close_frame_decode: "decode close_frame = Inr (Packet 2 close_reason)"
proof -
  have "length (JSON_stringify close_reason) < 4294967296"
    by (simp add: close_reason_def eval_text)
  moreover have "wf_json close_reason"
    by (simp add: close_reason_def)
  ultimately show ?thesis
    using decode_packet [of 2 "JSON_stringify close_reason"]
    by (simp add: close_frame_def JSON_parse_stringify)
qed

section \<open>The claims\<close>

text \<open>
  C1 (as amended). For every operation and every truthy payload (an object, an array, a
  non-empty string, a non-zero number, \<open>true\<close>) whose JSON text is shorter than \<open>2^32\<close>
  bytes, \<open>encode\<close> returns a packet, and \<open>decode\<close> of that packet returns the code of the
  operation and the same payload.
\<close>

theorem C1_round_trip:
  assumes "truthy payload" and "wf_json payload"
    and "length (JSON_stringify payload) < 4294967296"
  shows "\<exists>packet. encode operation (Some payload) = Inr packet
           \<and> decode packet = Inr (Packet (op_code operation) payload)"
proof -
  let ?text = "JSON_stringify payload"
  let ?packet = "le32 (op_code operation) @ le32 (length ?text) @ ?text"
  have data: "dataBuffer (Some payload) = ?text"
    using assms(1) by (simp add: dataBuffer_def)
  have "encode operation (Some payload) = Inr ?packet"
    using encode_packet [of "Some payload" operation] assms(3) by (simp add: data)
  moreover have "op_code operation < 4294967296"
    by (cases operation) simp_all
  then have "decode ?packet = Inr (Packet (op_code operation) payload)"
    using assms(2,3) by (simp add: decode_packet JSON_parse_stringify)
  ultimately show ?thesis by blast
qed

theorem C1_round_trip_witness:
  "truthy scenario_payload \<and> wf_json scenario_payload
   \<and> length (JSON_stringify scenario_payload) < 4294967296
   \<and> (\<exists>packet. encode FRAME (Some scenario_payload) = Inr packet
          \<and> decode packet = Inr (Packet 1 scenario_payload))"
proof -
  have t: "truthy scenario_payload" and w: "wf_json scenario_payload"
    by (simp_all add: scenario_payload_def)
  have l: "length (JSON_stringify scenario_payload) < 4294967296"
    by (simp add: scenario_payload_def eval_text)
  show ?thesis
    using C1_round_trip [OF t w l, of FRAME] t w l by simp
qed

text \<open>C1 as stated fails for a payload that is falsy: the number 0 is sent as an empty data
  buffer, and the packet does not decode to it.\<close>

theorem C1_counterexample:
  "encode FRAME (Some (JNum 0)) = Inr (le32 1 @ le32 0)
   \<and> decode (le32 1 @ le32 0) = Inr Malformed"
proof -
  have "encode FRAME (Some (JNum 0)) = Inr (le32 1 @ le32 0)"
    using encode_packet [of "Some (JNum 0)" FRAME] by (simp add: dataBuffer_def)
  moreover have "decode (le32 1 @ le32 0) = Inr Malformed"
    using decode_packet [of 1 "[]"] by (simp add: JSON_parse_empty)
  ultimately show ?thesis by simp
qed

text \<open>
  C2 (as amended). Encoding an operation with no payload produces exactly 8 bytes, the header
  with payload length 0; decoding exactly those 8 bytes passes the length tests and fails on
  \<^verbatim>\<open>JSON.parse\<close> of the empty text: the result is a malformed packet.
\<close>

theorem C2_empty_payload:
  "encode operation None = Inr (le32 (op_code operation) @ le32 0)
   \<and> length (le32 (op_code operation) @ le32 0) = 8
   \<and> decode (le32 (op_code operation) @ le32 0) = Inr Malformed"
proof -
  have "encode operation None = Inr (le32 (op_code operation) @ le32 0)"
    using encode_packet [of None operation] by (simp add: dataBuffer_def)
  moreover have "op_code operation < 4294967296"
    by (cases operation) simp_all
  then have "decode (le32 (op_code operation) @ le32 0) = Inr Malformed"
    using decode_packet [of "op_code operation" "[]"] by (simp add: JSON_parse_empty)
  ultimately show ?thesis by (simp add: le32_length)
qed

theorem C2_empty_payload_witness:
  "encode HANDSHAKE None = Inr (le32 0 @ le32 0)
   \<and> length (le32 0 @ le32 0) = 8
   \<and> decode (le32 0 @ le32 0) = Inr Malformed"
  using C2_empty_payload [of HANDSHAKE] by simp

text \<open>C2 as stated fails: the 8 bytes of a \<open>PING\<close> without payload do not decode to a frame.\<close>

theorem C2_counterexample:
  "encode PING None = Inr (le32 3 @ le32 0) \<and> decode (le32 3 @ le32 0) = Inr Malformed"
proof -
  have "encode PING None = Inr (le32 3 @ le32 0)"
    using encode_packet [of None PING] by (simp add: dataBuffer_def)
  moreover have "decode (le32 3 @ le32 0) = Inr Malformed"
    using decode_packet [of 3 "[]"] by (simp add: JSON_parse_empty)
  ultimately show ?thesis by simp
qed






text \<open>
  C5. \<^verbatim>\<open>close()\<close> without a socket resolves at once and changes nothing. With a socket it asks
  the socket to end and stays pending; when the close is acknowledged, the transport emits
  exactly one \<open>close\<close> event with the reason \<open>closed_by_client\<close> and has no socket. A
  received \<open>CLOSE\<close> frame makes the transport emit exactly one \<open>close\<close> event with the
  parsed reason and leaves it without a socket. Each listener that a call of \<^verbatim>\<open>connect\<close>
  has registered forwards the event to the client once: after one \<^verbatim>\<open>connect\<close> the client
  is notified exactly once.
\<close>

theorem C5_close:
  "(socket s = None \<longrightarrow> close s = (Resolved, s))
   \<and> (socket s = Some k \<and> listeners s ''close'' = Some (replicate n Transport_close) \<longrightarrow>
        (\<exists>s1 s2. close s = (Pending, s1)
           \<and> socket s1 = Some (k\<lparr>ended := True\<rparr>)
           \<and> close_acknowledged s1 = Inr s2
           \<and> socket s2 = None
           \<and> emitted s2 = emitted s @ [(''close'', [Some closed_by_client])]
           \<and> client_emitted s2 =
               client_emitted s @ replicate n (Some (JStr ''close''), [Some closed_by_client])))
   \<and> (isConnected s \<and> decode (received s) = Inr (Packet 2 reason)
        \<and> listeners s ''close'' = Some (replicate (Suc n) Transport_close) \<longrightarrow>
        (\<exists>s'. readable s = Inr s'
           \<and> socket s' = None
           \<and> emitted s' = emitted s @ [(''close'', [Some reason])]
           \<and> client_emitted s' =
               client_emitted (drained s)
               @ [(Some (JStr ''debug''), [Some (JStr ''SERVER => CLIENT | OPCODE.CLOSE |''), Some reason])]
               @ replicate (Suc n) (Some (JStr ''close''), [Some reason])))"
proof (intro conjI impI)
  assume "socket s = None"
  then show "close s = (Resolved, s)" by (simp add: close_def)
next
  assume a: "socket s = Some k \<and> listeners s ''close'' = Some (replicate n Transport_close)"
  let ?s1 = "s\<lparr>socket := Some (k\<lparr>ended := True\<rparr>)\<rparr>"
  have "close s = (Pending, ?s1)" using a by (simp add: close_def)
  moreover have "listeners ?s1 ''close'' = Some (replicate n Transport_close)"
    using a by simp
  then have "close_acknowledged ?s1 =
      Inr (?s1\<lparr>emitted := emitted ?s1 @ [(''close'', [Some closed_by_client])],
               socket := None,
               client_emitted := client_emitted ?s1
                 @ replicate n (Some (JStr ''close''), [Some closed_by_client])\<rparr>)"
    by (simp add: close_acknowledged_def emit_close arg0_def)
  ultimately show "\<exists>s1 s2. close s = (Pending, s1)
      \<and> socket s1 = Some (k\<lparr>ended := True\<rparr>)
      \<and> close_acknowledged s1 = Inr s2
      \<and> socket s2 = None
      \<and> emitted s2 = emitted s @ [(''close'', [Some closed_by_client])]
      \<and> client_emitted s2 =
          client_emitted s @ replicate n (Some (JStr ''close''), [Some closed_by_client])"
    by simp
next
  assume a: "isConnected s \<and> decode (received s) = Inr (Packet 2 reason)
    \<and> listeners s ''close'' = Some (replicate (Suc n) Transport_close)"
  let ?s1 = "debug (''SERVER => CLIENT | OPCODE.'' @ op_name 2 @ '' |'') [Some reason] (drained s)"
  have "listeners ?s1 ''close'' = Some (replicate (Suc n) Transport_close)"
    using a by (simp add: debug_simps drained_simps)
  then have "emit ''close'' [Some reason] ?s1 =
      Inr (?s1\<lparr>emitted := emitted ?s1 @ [(''close'', [Some reason])],
               socket := None,
               client_emitted := client_emitted ?s1
                 @ replicate (Suc n) (Some (JStr ''close''), [arg0 [Some reason]])\<rparr>)"
    using emit_close [of ?s1 "Suc n" "[Some reason]"] by simp
  then have "readable s =
      Inr (?s1\<lparr>emitted := emitted ?s1 @ [(''close'', [Some reason])],
               socket := None,
               client_emitted := client_emitted ?s1
                 @ replicate (Suc n) (Some (JStr ''close''), [arg0 [Some reason]])\<rparr>)"
    using a by (simp add: readable_connected dispatch_def)
  then show "\<exists>s'. readable s = Inr s'
      \<and> socket s' = None
      \<and> emitted s' = emitted s @ [(''close'', [Some reason])]
      \<and> client_emitted s' =
          client_emitted (drained s)
          @ [(Some (JStr ''debug''), [Some (JStr ''SERVER => CLIENT | OPCODE.CLOSE |''), Some reason])]
          @ replicate (Suc n) (Some (JStr ''close''), [Some reason])"
    by (simp add: debug_simps drained_simps arg0_def op_name_def)
qed

theorem C5_close_witness:
  "socket (Client ''123'') = None \<and> close (Client ''123'') = (Resolved, Client ''123'')
   \<and> socket connected_client = Some open_socket
   \<and> listeners connected_client ''close'' = Some (replicate 1 Transport_close)
   \<and> (\<exists>s1 s2. close connected_client = (Pending, s1)
         \<and> socket s1 = Some (open_socket\<lparr>ended := True\<rparr>)
         \<and> close_acknowledged s1 = Inr s2
         \<and> socket s2 = None
         \<and> emitted s2 = [(''close'', [Some closed_by_client])]
         \<and> client_emitted s2 = [(Some (JStr ''close''), [Some closed_by_client])])
   \<and> isConnected (arrive [close_frame] connected_client)
   \<and> decode (received (arrive [close_frame] connected_client)) = Inr (Packet 2 close_reason)
   \<and> (\<exists>s'. readable (arrive [close_frame] connected_client) = Inr s'
         \<and> socket s' = None
         \<and> emitted s' = [(''close'', [Some close_reason])]
         \<and> client_emitted s' =
             [chunk_report close_frame,
              (Some (JStr ''debug''), [Some (JStr ''SERVER => CLIENT | OPCODE.CLOSE |''), Some close_reason]),
              (Some (JStr ''close''), [Some close_reason])])"
proof -
  let ?s = "arrive [close_frame] connected_client"
  have a: "socket (Client ''123'') = None" by (simp add: Client_def)
  have b: "socket connected_client = Some open_socket"
    "listeners connected_client ''close'' = Some (replicate 1 Transport_close)"
    "emitted connected_client = []" "client_emitted connected_client = []"
    by (simp_all add: connected_client_def)
  have c: "isConnected ?s" "decode (received ?s) = Inr (Packet 2 close_reason)"
    "listeners ?s ''close'' = Some (replicate (Suc 0) Transport_close)"
    by (simp_all add: arrive_connected_client close_frame_decode)
  show ?thesis
    using C5_close [where s = "Client ''123''"]
      C5_close [where s = connected_client and k = open_socket and n = 1]
      C5_close [where s = ?s and reason = close_reason and n = 0] a b c
    by (simp add: arrive_connected_client)
qed

text \<open>
  C6. The code departs from the claim on a host whose runtime directory does not exist: no
  candidate is reachable there, so discovery should skip them all and fail with
  \<open>Could_not_connect\<close>, but \<^verbatim>\<open>fs.realpathSync\<close> raises at the first candidate of the second
  rule and \<^verbatim>\<open>getSocket\<close> fails with that error. (Where the directory resolves, \<^verbatim>\<open>getSocket\<close>
  is the discovery of the claim: \<open>getSocket_locate\<close>.)
\<close>

theorem C6_unresolved_runtime_directory:
  "getSocket stale_host (Client ''123'') = Inl ENOENT
   \<and> find (reachable stale_host) (candidates stale_host ''/run/user/1000'') = None"
proof -
  have "prefix stale_host = Inl ENOENT"
    by (simp add: prefix_def stale_host_def linux_host_def)
  moreover have "platform stale_host = ''linux''" "socket (Client ''123'') = None"
    by (simp_all add: stale_host_def linux_host_def Client_def)
  ultimately have "getSocket stale_host (Client ''123'') = Inl ENOENT"
    by (intro getSocket_unresolved) simp_all
  moreover have "\<not> reachable stale_host p" for p
    by (simp add: reachable_def stale_host_def)
  then have "find (reachable stale_host) xs = None" for xs
    by (induction xs) simp_all
  ultimately show ?thesis by simp
qed

text \<open>
  C7. \<^verbatim>\<open>send\<close> on a transport without a socket, with a payload whose JSON text is shorter
  than \<open>2^32\<close> bytes, raises nothing and returns the state it was given, but for the
  diagnostic on the client's \<open>debug\<close> channel: nothing is written, nothing is emitted by
  the transport, and the state has nowhere to keep the frame.
\<close>

theorem C7_send_without_connection:
  assumes "socket s = None" and "length (dataBuffer payload) < 4294967296"
  shows "\<exists>s'. send operation payload s = Inr s'
    \<and> s' = s\<lparr>client_emitted := client_emitted s @
             [(Some (JStr ''debug''),
               [Some (JStr (''CLIENT => SERVER | OPCODE.'' @ op_name (op_code operation) @ '' |'')),
                payload])]\<rparr>
    \<and> written s' = written s \<and> socket s' = None \<and> emitted s' = emitted s"
  using assms by (simp add: send_fits socket_write_def debug_def client_emit_def)

theorem C7_send_without_connection_witness:
  "socket (Client ''123'') = None \<and> length (dataBuffer (Some scenario_payload)) < 4294967296
   \<and> (\<exists>s'. send FRAME (Some scenario_payload) (Client ''123'') = Inr s'
         \<and> s' = (Client ''123'')\<lparr>client_emitted :=
               [(Some (JStr ''debug''),
                 [Some (JStr ''CLIENT => SERVER | OPCODE.FRAME |''), Some scenario_payload])]\<rparr>
         \<and> written s' = [] \<and> socket s' = None \<and> emitted s' = [])"
proof -
  have n: "socket (Client ''123'') = None" by (simp add: Client_def)
  have l: "length (dataBuffer (Some scenario_payload)) < 4294967296"
    by (simp add: dataBuffer_def scenario_payload_def eval_text)
  show ?thesis
    using C7_send_without_connection [OF n l, of FRAME] n l
    by (simp add: Client_def op_name_def)
qed

text \<open>
  C8 (as amended). When one run of the handler drains a complete frame followed by further
  bytes, the length test fails on the whole buffer: the handler reports a malformed packet,
  the transport emits nothing and nothing is written. The first frame is discarded with the
  trailing bytes.
\<close>

theorem C8_trailing_bytes:
  assumes "isConnected s" and "received s = frame @ trailing"
    and "8 \<le> length frame" and "length frame = 8 + declared_length frame"
    and "trailing \<noteq> []"
  shows "decode (frame @ trailing) = Inr Malformed
    \<and> (\<exists>s'. readable s = Inr s'
          \<and> client_emitted s' =
              client_emitted (drained s) @ [(Some (JStr ''debug''), [Some (JStr malformed_packet)])]
          \<and> emitted s' = emitted s \<and> written s' = written s)"
proof -
  have "malformed_frame (frame @ trailing)"
    using assms(3,4,5) by (simp add: malformed_frame_def declared_length_append)
  then have "decode (frame @ trailing) = Inr Malformed"
    by (simp add: decode_Malformed_iff)
  then show ?thesis
    using assms(1,2) by (simp add: readable_connected debug_simps drained_simps)
qed

theorem C8_trailing_bytes_witness:
  "isConnected (arrive [empty_object_frame, [CHR 0x01]] connected_client)
   \<and> received (arrive [empty_object_frame, [CHR 0x01]] connected_client)
       = empty_object_frame @ [CHR 0x01]
   \<and> 8 \<le> length empty_object_frame
   \<and> length empty_object_frame = 8 + declared_length empty_object_frame
   \<and> [CHR 0x01] \<noteq> []
   \<and> decode (empty_object_frame @ [CHR 0x01]) = Inr Malformed
   \<and> (\<exists>s'. readable (arrive [empty_object_frame, [CHR 0x01]] connected_client) = Inr s'
         \<and> client_emitted s' =
             [chunk_report empty_object_frame, chunk_report [CHR 0x01],
              (Some (JStr ''debug''), [Some (JStr malformed_packet)])]
         \<and> emitted s' = [] \<and> written s' = [])"
proof -
  let ?s = "arrive [empty_object_frame, [CHR 0x01]] connected_client"
  have 1: "isConnected ?s" and 2: "received ?s = empty_object_frame @ [CHR 0x01]"
    by (simp_all add: arrive_connected_client)
  have 3: "8 \<le> length empty_object_frame"
    and 4: "length empty_object_frame = 8 + declared_length empty_object_frame"
    by (simp_all add: empty_object_frame_facts)
  have 5: "[CHR 0x01] \<noteq> []" by simp
  show ?thesis
    using C8_trailing_bytes [OF 1 2 3 4 5] 1 2 3 4 by (simp add: arrive_connected_client)
qed

text \<open>
  C8 as stated fails: a frame that decodes on its own to a \<open>FRAME\<close> with payload \<open>{}\<close> is
  not dispatched when one more byte arrives with it.
\<close>

theorem C8_counterexample:
  "decode empty_object_frame = Inr (Packet 1 (JObj []))
   \<and> map_sum id emitted (readable (arrive [empty_object_frame, [CHR 0x01]] connected_client)) = Inr []"
proof -
  let ?s = "arrive [empty_object_frame, [CHR 0x01]] connected_client"
  have "malformed_frame (empty_object_frame @ [CHR 0x01])"
    by (simp add: malformed_frame_def declared_length_append empty_object_frame_facts)
  then have "decode (received ?s) = Inr Malformed"
    by (simp add: decode_Malformed_iff arrive_connected_client)
  then have "readable ?s = Inr (debug malformed_packet [] (drained ?s))"
    by (simp add: readable_connected arrive_connected_client)
  then show ?thesis
    by (simp add: empty_object_frame_facts debug_simps drained_simps arrive_connected_client)
qed

text \<open>
  C9 (as amended). The \<open>pid\<close> of the payload that \<^verbatim>\<open>setActivity\<close> and \<^verbatim>\<open>clearActivity\<close> send
  is the pid of the current process (0 when that is absent) for every \<open>pid\<close> argument that
  is absent or not 0, and it is 0 when the argument is 0. No other value of the argument
  reaches the wire.
\<close>

theorem C9_pid_field:
  "setActivity h activity pid nonce s =
     send FRAME
       (Some (JObj [(''cmd'', JStr ''SET_ACTIVITY''),
                    (''args'',
                     JObj [(''pid'',
                            JNum (if pid = Some 0 then 0
                                  else (case process_pid h of Some p \<Rightarrow> p | None \<Rightarrow> 0))),
                           (''activity'', Activity_json activity)]),
                    (''nonce'', JStr nonce)])) s
   \<and> clearActivity h pid nonce s =
     send FRAME
       (Some (JObj [(''cmd'', JStr ''CLEAR_ACTIVITY''),
                    (''args'',
                     JObj [(''pid'',
                            JNum (if pid = Some 0 then 0
                                  else (case process_pid h of Some p \<Rightarrow> p | None \<Rightarrow> 0)))]),
                    (''nonce'', JStr nonce)])) s"
  by (auto simp: setActivity_def clearActivity_def request_def pid_field_def Let_def
      split: option.splits)

theorem C9_pid_field_witness:
  "setActivity linux_host listening (Some 77) ''n1'' connected_client =
     send FRAME
       (Some (JObj [(''cmd'', JStr ''SET_ACTIVITY''),
                    (''args'', JObj [(''pid'', JNum 4242), (''activity'', Activity_json listening)]),
                    (''nonce'', JStr ''n1'')])) connected_client
   \<and> clearActivity linux_host None ''n2'' connected_client =
     send FRAME
       (Some (JObj [(''cmd'', JStr ''CLEAR_ACTIVITY''),
                    (''args'', JObj [(''pid'', JNum 4242)]),
                    (''nonce'', JStr ''n2'')])) connected_client"
  using C9_pid_field [of linux_host listening "Some 77" "''n1''" connected_client]
    C9_pid_field [of linux_host listening None "''n2''" connected_client]
  by (simp add: linux_host_def)

text \<open>
  C9 as stated fails for the argument 0: the process has pid 4242 and the payload says 0.
\<close>

theorem C9_counterexample:
  "process_pid linux_host = Some 4242
   \<and> setActivity linux_host listening (Some 0) ''n1'' connected_client =
     send FRAME
       (Some (JObj [(''cmd'', JStr ''SET_ACTIVITY''),
                    (''args'', JObj [(''pid'', JNum 0), (''activity'', Activity_json listening)]),
                    (''nonce'', JStr ''n1'')])) connected_client"
  by (simp add: setActivity_def request_def pid_field_def linux_host_def)

text \<open>
  C10. With a socket (and a JSON text shorter than \<open>2^32\<close> bytes), \<^verbatim>\<open>setActivity\<close> writes
  exactly one packet; it decodes to a \<open>FRAME\<close> whose payload has under \<open>args\<close> an
  \<open>activity\<close> that is the activity given, whatever \<open>cleaned\<close> makes of it.
\<close>

theorem C10_activity_verbatim:
  assumes "socket s = Some k"
    and "length (JSON_stringify
           (JObj [(''cmd'', JStr ''SET_ACTIVITY''),
                  (''args'', JObj [(''pid'', JNum (pid_field h pid)),
                                   (''activity'', Activity_json activity)]),
                  (''nonce'', JStr nonce)])) < 4294967296"
  shows "\<exists>s' packet parsed args. setActivity h activity pid nonce s = Inr s'
    \<and> written s' = written s @ [packet]
    \<and> decode packet = Inr (Packet 1 parsed)
    \<and> property parsed ''args'' = Some args
    \<and> property args ''activity'' = Some (Activity_json activity)"
proof -
  let ?args = "JObj [(''pid'', JNum (pid_field h pid)), (''activity'', Activity_json activity)]"
  let ?m = "JObj [(''cmd'', JStr ''SET_ACTIVITY''), (''args'', ?args), (''nonce'', JStr nonce)]"
  let ?text = "JSON_stringify ?m"
  let ?packet = "le32 1 @ le32 (length ?text) @ ?text"
  have set: "setActivity h activity pid nonce s = send FRAME (Some ?m) s"
    by (simp add: setActivity_def request_def)
  have data: "dataBuffer (Some ?m) = ?text"
    by (simp add: dataBuffer_def del: JSON_stringify.simps)
  have wf: "wf_json ?m"
    using wf_Activity_json [of activity] by simp
  have "send FRAME (Some ?m) s =
      Inr (socket_write ?packet (debug (''CLIENT => SERVER | OPCODE.'' @ op_name 1 @ '' |'') [Some ?m] s))"
    using send_fits [of "Some ?m" FRAME s] assms(2) by (simp add: data del: JSON_stringify.simps)
  moreover have "written (socket_write ?packet
      (debug (''CLIENT => SERVER | OPCODE.'' @ op_name 1 @ '' |'') [Some ?m] s)) = written s @ [?packet]"
    using assms(1) by (simp add: socket_write_simps debug_simps del: JSON_stringify.simps)
  moreover have "decode ?packet = Inr (Packet 1 ?m)"
    using decode_packet [of 1 ?text] assms(2) JSON_parse_stringify [OF wf]
    by (simp del: JSON_stringify.simps)
  moreover have "property ?m ''args'' = Some ?args" "property ?args ''activity'' = Some (Activity_json activity)"
    by simp_all
  ultimately show ?thesis
    unfolding set by blast
qed

text \<open>
  For the activity \<open>listening\<close> the cleaned copy differs from what is sent.
\<close>

theorem C10_activity_verbatim_witness:
  "socket connected_client = Some open_socket
   \<and> length (JSON_stringify
        (JObj [(''cmd'', JStr ''SET_ACTIVITY''),
               (''args'', JObj [(''pid'', JNum (pid_field linux_host None)),
                                (''activity'', Activity_json listening)]),
               (''nonce'', JStr ''n1'')])) < 4294967296
   \<and> (\<exists>s' packet parsed args.
         setActivity linux_host listening None ''n1'' connected_client = Inr s'
         \<and> written s' = [packet]
         \<and> decode packet = Inr (Packet 1 parsed)
         \<and> property parsed ''args'' = Some args
         \<and> property args ''activity'' = Some (Activity_json listening))
   \<and> Activity_json (cleaned listening) \<noteq> Activity_json listening"
proof -
  have 1: "socket connected_client = Some open_socket"
    and w: "written connected_client = []"
    by (simp_all add: connected_client_def)
  have 2: "length (JSON_stringify
        (JObj [(''cmd'', JStr ''SET_ACTIVITY''),
               (''args'', JObj [(''pid'', JNum (pid_field linux_host None)),
                                (''activity'', Activity_json listening)]),
               (''nonce'', JStr ''n1'')])) < 4294967296"
    by (simp add: pid_field_def linux_host_def listening_def eval_activity eval_text)
  have 3: "Activity_json (cleaned listening) \<noteq> Activity_json listening"
    by (simp add: cleaned_def listening_def eval_activity keep_string_def keep_number_def)
  show ?thesis
    using C10_activity_verbatim [OF 1 2] 1 2 3 w by simp
qed

end
